theory Spec2Isabelle
  imports Main "HOL-Library.Sublist" "HOL-Library.AList"
begin

section \<open>Strings and paths\<close>

text \<open>
  The analyzer (\<^verbatim>\<open>src/project_analyzer.py\<close>) works on Python strings. A string of the
  model is a \<^typ>\<open>string\<close>; a character of the model stands for a code point below 256.
  The functions of this section are the methods of \<^verbatim>\<open>str\<close> and the functions of
  \<^verbatim>\<open>os.path\<close> that the analyzer calls, as CPython defines them on a POSIX system
  (\<^verbatim>\<open>os.sep == '/'\<close>, module \<^verbatim>\<open>posixpath\<close>).
\<close>

definition startswith :: "string \<Rightarrow> string \<Rightarrow> bool" where
  "startswith s p = prefix p s"

definition endswith :: "string \<Rightarrow> string \<Rightarrow> bool" where
  "endswith s p = suffix p s"

text \<open>\<^verbatim>\<open>s.replace(old, new)\<close>: the occurrences of \<open>old\<close> are found from the left and do
  not overlap; an empty \<open>old\<close> matches before every character and at the end.\<close>

fun str_replace :: "string \<Rightarrow> string \<Rightarrow> string \<Rightarrow> string" where
  "str_replace [] old new = (if old = [] then new else [])"
| "str_replace (c # cs) old new =
     (if old = [] then new @ c # str_replace cs old new
      else if prefix old (c # cs) then new @ str_replace (drop (length old - 1) cs) old new
      else c # str_replace cs old new)"

text \<open>\<^verbatim>\<open>s.rfind(c)\<close>: the highest index of \<open>c\<close>, or \<open>-1\<close>.\<close>

fun rfind_from :: "char \<Rightarrow> string \<Rightarrow> int \<Rightarrow> int \<Rightarrow> int" where
  "rfind_from c [] i best = best"
| "rfind_from c (x # xs) i best = rfind_from c xs (i + 1) (if x = c then i else best)"

definition rfind :: "string \<Rightarrow> char \<Rightarrow> int" where
  "rfind s c = rfind_from c s 0 (- 1)"

definition rstrip :: "string \<Rightarrow> char \<Rightarrow> string" where
  "rstrip s c = rev (dropWhile (\<lambda>x. x = c) (rev s))"

text \<open>\<^verbatim>\<open>s.split(c)\<close> for a one-character separator: never an empty list.\<close>

fun str_split :: "string \<Rightarrow> char \<Rightarrow> string list" where
  "str_split [] c = [[]]"
| "str_split (x # xs) c =
     (if x = c then [] # str_split xs c
      else (case str_split xs c of [] \<Rightarrow> [[x]] | w # ws \<Rightarrow> (x # w) # ws))"

text \<open>\<^verbatim>\<open>sep.join(comps)\<close>.\<close>

fun str_join :: "string \<Rightarrow> string list \<Rightarrow> string" where
  "str_join sep [] = []"
| "str_join sep [w] = w"
| "str_join sep (w # ws) = w @ sep @ str_join sep ws"

definition os_sep :: string where
  "os_sep = ''/''"

text \<open>\<^verbatim>\<open>os.path.join(a, *p)\<close>: a component that starts with the separator restarts the
  path.\<close>

fun os_path_join :: "string \<Rightarrow> string list \<Rightarrow> string" where
  "os_path_join path [] = path"
| "os_path_join path (b # p) =
     os_path_join
       (if startswith b os_sep then b
        else if path = [] \<or> endswith path os_sep then path @ b
        else path @ os_sep @ b) p"

text \<open>\<^verbatim>\<open>os.path.dirname(p)\<close>.\<close>

definition os_path_dirname :: "string \<Rightarrow> string" where
  "os_path_dirname p =
     (let i = nat (rfind p (CHR ''/'') + 1);
          head = take i p
      in if head \<noteq> [] \<and> head \<noteq> replicate (length head) (CHR ''/'')
         then rstrip head (CHR ''/'') else head)"

text \<open>The loop of \<^verbatim>\<open>os.path.normpath\<close> over the components; \<open>initial_slashes\<close> is 0, 1
  or 2.\<close>

fun normpath_comps :: "nat \<Rightarrow> string list \<Rightarrow> string list \<Rightarrow> string list" where
  "normpath_comps initial_slashes [] new_comps = new_comps"
| "normpath_comps initial_slashes (cmp # comps) new_comps =
     (if cmp = [] \<or> cmp = ''.'' then normpath_comps initial_slashes comps new_comps
      else if cmp \<noteq> ''..'' \<or> (initial_slashes = 0 \<and> new_comps = [])
              \<or> (new_comps \<noteq> [] \<and> last new_comps = ''..'')
        then normpath_comps initial_slashes comps (new_comps @ [cmp])
      else if new_comps \<noteq> [] then normpath_comps initial_slashes comps (butlast new_comps)
      else normpath_comps initial_slashes comps new_comps)"

definition os_path_normpath :: "string \<Rightarrow> string" where
  "os_path_normpath path =
     (if path = [] then ''.''
      else
        let initial_slashes =
              (if startswith path ''/''
               then (if startswith path ''//'' \<and> \<not> startswith path ''///'' then 2 else 1)
               else (0::nat));
            comps = normpath_comps initial_slashes (str_split path (CHR ''/'')) [];
            path' = replicate initial_slashes (CHR ''/'') @ str_join ''/'' comps
        in if path' = [] then ''.'' else path')"

section \<open>The world outside the analyzer\<close>

text \<open>
  What the analyzer reads from its surroundings is a parameter of the model: the directory
  walk, the content of a file, the existence of a path and the Python parser. A call that
  raises returns \<open>Inl\<close>.
\<close>

datatype py_error = OSError | UnicodeDecodeError | SyntaxError | ValueError

text \<open>The nodes that \<^verbatim>\<open>ast.walk\<close> yields: an \<^verbatim>\<open>ast.Import\<close> with the names of its aliases,
  an \<^verbatim>\<open>ast.ImportFrom\<close> with its module (\<^verbatim>\<open>None\<close> for \<^verbatim>\<open>from . import x\<close>), or any other
  node.\<close>

datatype ast_node = Import "string list" | ImportFrom "string option" | OtherNode

record world =
  os_walk :: "string \<Rightarrow> (string \<times> string list \<times> string list) list"
  open_read :: "string \<Rightarrow> py_error + string"
  os_path_exists :: "string \<Rightarrow> py_error + bool"
  ast_parse_walk :: "string \<Rightarrow> py_error + ast_node list"

section \<open>ProjectAnalyzer\<close>

text \<open>
  The fields of \<^verbatim>\<open>ProjectAnalyzer\<close>. \<open>file_dependencies\<close> is the \<^verbatim>\<open>defaultdict(set)\<close>, a
  dictionary in insertion order; \<open>all_files\<close> is a Python set that the analyzer iterates,
  kept as a list without duplicates.
\<close>

record analyzer =
  project_root :: string
  file_dependencies :: "(string \<times> string set) list"
  all_files :: "string list"
  used_files :: "string set"
  unused_files :: "string set"

definition init :: "string \<Rightarrow> analyzer" where
  "init root = \<lparr>project_root = root, file_dependencies = [], all_files = [],
                used_files = {}, unused_files = {}\<rparr>"

definition set_add :: "'a \<Rightarrow> 'a list \<Rightarrow> 'a list" where
  "set_add x xs = (if x \<in> set xs then xs else xs @ [x])"

definition collected_suffixes :: "string list" where
  "collected_suffixes = [''.py'', ''.dart'', ''.kt'', ''.java'', ''.xml'']"

fun collect_dir :: "string \<Rightarrow> string list \<Rightarrow> string list \<Rightarrow> string list" where
  "collect_dir root [] acc = acc"
| "collect_dir root (file # files) acc =
     collect_dir root files
       (if \<exists>suf \<in> set collected_suffixes. endswith file suf
        then set_add (os_path_join root [file]) acc else acc)"

fun collect_walk :: "(string \<times> string list \<times> string list) list \<Rightarrow> string list \<Rightarrow> string list" where
  "collect_walk [] acc = acc"
| "collect_walk ((root, dirs, files) # rest) acc = collect_walk rest (collect_dir root files acc)"

definition collect_all_files :: "world \<Rightarrow> analyzer \<Rightarrow> analyzer" where
  "collect_all_files w st =
     st\<lparr>all_files := collect_walk (os_walk w (project_root st)) (all_files st)\<rparr>"

subsection \<open>The resolver\<close>

text \<open>The candidate path of \<^verbatim>\<open>_resolve_import\<close>, in the order of its three branches.\<close>

definition target_path :: "string \<Rightarrow> string \<Rightarrow> string \<Rightarrow> string" where
  "target_path root source_file import_path =
     (if endswith import_path ''.py''
      then os_path_normpath (os_path_join (os_path_dirname source_file) [import_path])
      else if startswith import_path ''package:''
      then os_path_normpath (os_path_join root
             [''lib'', str_replace (str_replace import_path ''package:'' []) ''/'' os_sep])
      else os_path_normpath (os_path_join (os_path_dirname source_file)
             [str_replace import_path ''.'' os_sep @ ''.dart'']))"

text \<open>\<^verbatim>\<open>self.file_dependencies[source_file].add(target_path)\<close>: a missing key is created
  with the empty set first.\<close>

definition add_dependency :: "string \<Rightarrow> string \<Rightarrow> analyzer \<Rightarrow> analyzer" where
  "add_dependency source_file target st =
     st\<lparr>file_dependencies :=
          AList.update source_file
            (insert target (case map_of (file_dependencies st) source_file of
                              None \<Rightarrow> {} | Some deps \<Rightarrow> deps))
            (file_dependencies st)\<rparr>"

text \<open>The body of the \<^verbatim>\<open>try\<close> of \<^verbatim>\<open>_resolve_import\<close>, and the method with its
  \<^verbatim>\<open>except Exception\<close>, which logs and returns.\<close>

definition resolve_import_try :: "world \<Rightarrow> analyzer \<Rightarrow> string \<Rightarrow> string \<Rightarrow> py_error + analyzer" where
  "resolve_import_try w st source_file import_path =
     (let target = target_path (project_root st) source_file import_path
      in case os_path_exists w target of
           Inl e \<Rightarrow> Inl e
         | Inr ex \<Rightarrow> Inr (if ex then add_dependency source_file target st else st))"

definition resolve_import :: "world \<Rightarrow> analyzer \<Rightarrow> string \<Rightarrow> string \<Rightarrow> analyzer" where
  "resolve_import w st source_file import_path =
     (case resolve_import_try w st source_file import_path of
        Inl e \<Rightarrow> st
      | Inr st' \<Rightarrow> st')"

subsection \<open>The extractors\<close>

fun resolve_names :: "world \<Rightarrow> analyzer \<Rightarrow> string \<Rightarrow> string list \<Rightarrow> analyzer" where
  "resolve_names w st file_path [] = st"
| "resolve_names w st file_path (name # names) =
     resolve_names w (resolve_import w st file_path name) file_path names"

fun walk_nodes :: "world \<Rightarrow> analyzer \<Rightarrow> string \<Rightarrow> ast_node list \<Rightarrow> analyzer" where
  "walk_nodes w st file_path [] = st"
| "walk_nodes w st file_path (Import names # nodes) =
     walk_nodes w (resolve_names w st file_path names) file_path nodes"
| "walk_nodes w st file_path (ImportFrom module # nodes) =
     walk_nodes w
       (case module of
          None \<Rightarrow> st
        | Some m \<Rightarrow> if m \<noteq> [] then resolve_import w st file_path m else st)
       file_path nodes"
| "walk_nodes w st file_path (OtherNode # nodes) = walk_nodes w st file_path nodes"

definition analyze_python_imports :: "world \<Rightarrow> analyzer \<Rightarrow> string \<Rightarrow> string \<Rightarrow> analyzer" where
  "analyze_python_imports w st file_path content =
     (case ast_parse_walk w content of
        Inl e \<Rightarrow> st
      | Inr nodes \<Rightarrow> walk_nodes w st file_path nodes)"

text \<open>
  \<^verbatim>\<open>re.finditer(r'import\s+[\'"](.+?)[\'"]', content)\<close>. \<open>\s\<close> is Unicode white space,
  \<open>.\<close> is any character but the newline. After the word and all the white space that
  follows it (giving white space back cannot help: a quote must follow), a quote, then the
  group: one character, then as few as possible up to the next quote.
\<close>

definition is_space :: "char \<Rightarrow> bool" where
  "is_space c \<longleftrightarrow> c \<in> set [CHR 0x09, CHR 0x0A, CHR 0x0B, CHR 0x0C, CHR 0x0D, CHR 0x1C,
                            CHR 0x1D, CHR 0x1E, CHR 0x1F, CHR 0x20, CHR 0x85, CHR 0xA0]"

definition is_quote :: "char \<Rightarrow> bool" where
  "is_quote c \<longleftrightarrow> c = CHR 0x27 \<or> c = CHR 0x22"

fun lazy_group :: "string \<Rightarrow> (string \<times> string) option" where
  "lazy_group [] = None"
| "lazy_group (x # xs) =
     (if is_quote x then Some ([], xs)
      else if x = CHR 0x0A then None
      else (case lazy_group xs of None \<Rightarrow> None | Some (g, rest) \<Rightarrow> Some (x # g, rest)))"

text \<open>A match of the pattern at the head of the string: the group and what follows the
  match. \<^verbatim>\<open>finditer\<close> looks for the next match after the end of the last one; a match is
  not empty, so the search ends.\<close>

definition match_import :: "string \<Rightarrow> (string \<times> string) option" where
  "match_import s =
     (if startswith s ''import'' then
        (let s1 = drop 6 s; s2 = dropWhile is_space s1
         in if s1 \<noteq> [] \<and> is_space (hd s1) then
              (case s2 of
                 q # c # s4 \<Rightarrow>
                   if is_quote q \<and> c \<noteq> CHR 0x0A then
                     (case lazy_group s4 of
                        None \<Rightarrow> None
                      | Some (g, rest) \<Rightarrow> Some (c # g, rest))
                   else None
               | _ \<Rightarrow> None)
            else None)
      else None)"

function finditer_import :: "string \<Rightarrow> string list" where
  "finditer_import [] = []"
| "finditer_import (x # xs) =
     (case match_import (x # xs) of
        Some (g, rest) \<Rightarrow> g # finditer_import rest
      | None \<Rightarrow> finditer_import xs)"
  by pat_completeness auto
termination
proof -
  have lazy: "length rest < length s" if "lazy_group s = Some (g, rest)" for s g rest
    using that by (induction s arbitrary: g rest) (auto split: if_splits option.splits)
  have shorter: "length rest < length s" if m: "match_import s = Some (g, rest)" for s g rest
  proof -
    from m obtain q c s4 g' where s2: "dropWhile is_space (drop 6 s) = q # c # s4"
      and lg: "lazy_group s4 = Some (g', rest)"
      by (auto simp: match_import_def Let_def split: if_splits list.splits option.splits)
    have "length rest < length s4" using lg by (rule lazy)
    moreover have "length (dropWhile is_space (drop 6 s)) \<le> length (drop 6 s)"
      by (rule length_dropWhile_le)
    ultimately show ?thesis using s2 by simp
  qed
  show ?thesis
    by (relation "measure length") (auto dest: shorter)
qed

definition analyze_dart_imports :: "world \<Rightarrow> analyzer \<Rightarrow> string \<Rightarrow> string \<Rightarrow> analyzer" where
  "analyze_dart_imports w st file_path content =
     resolve_names w st file_path (finditer_import content)"

subsection \<open>The analysis\<close>

text \<open>One turn of the loop of \<^verbatim>\<open>_analyze_imports\<close>: when the file cannot be opened or
  decoded nothing changes; the extractors do not raise.\<close>

definition analyze_file :: "world \<Rightarrow> analyzer \<Rightarrow> string \<Rightarrow> analyzer" where
  "analyze_file w st file_path =
     (case open_read w file_path of
        Inl e \<Rightarrow> st
      | Inr content \<Rightarrow>
          (let st' = (if endswith file_path ''.py''
                        then analyze_python_imports w st file_path content
                      else if endswith file_path ''.dart''
                        then analyze_dart_imports w st file_path content
                      else st)
           in st'\<lparr>used_files := insert file_path (used_files st')\<rparr>))"

fun analyze_files :: "world \<Rightarrow> analyzer \<Rightarrow> string list \<Rightarrow> analyzer" where
  "analyze_files w st [] = st"
| "analyze_files w st (file_path # files) = analyze_files w (analyze_file w st file_path) files"

definition analyze_imports :: "world \<Rightarrow> analyzer \<Rightarrow> analyzer" where
  "analyze_imports w st = analyze_files w st (all_files st)"

text \<open>\<^verbatim>\<open>_find_unused_files\<close>: \<open>used_files_set\<close> is the set \<open>self.used_files\<close> itself, so the
  targets are added to the field.\<close>

definition find_unused_files :: "analyzer \<Rightarrow> analyzer" where
  "find_unused_files st =
     (let used_files_set = fold (\<lambda>deps used. used \<union> deps) (map snd (file_dependencies st))
                             (used_files st)
      in st\<lparr>used_files := used_files_set,
            unused_files := set (all_files st) - used_files_set\<rparr>)"

text \<open>\<^verbatim>\<open>analyze_project\<close>; \<^verbatim>\<open>_log_results\<close> writes to the log and leaves the fields
  alone.\<close>

definition analyze_project :: "world \<Rightarrow> analyzer \<Rightarrow> analyzer" where
  "analyze_project w st = find_unused_files (analyze_imports w (collect_all_files w st))"

section \<open>What a file contributes\<close>

text \<open>
  The raw imports that the analysis extracts from a file, and the candidate paths among
  them that exist: the descriptions against which the loops are proved.
  \<open>deps_of\<close> reads the dictionary without creating the key.
\<close>

definition deps_of :: "analyzer \<Rightarrow> string \<Rightarrow> string set" where
  "deps_of st k = (case map_of (file_dependencies st) k of None \<Rightarrow> {} | Some deps \<Rightarrow> deps)"

definition node_imports :: "ast_node list \<Rightarrow> string list" where
  "node_imports nodes =
     concat (map (\<lambda>n. case n of Import names \<Rightarrow> names
                        | ImportFrom module \<Rightarrow> (case module of None \<Rightarrow> [] | Some m \<Rightarrow> if m \<noteq> [] then [m] else [])
                        | OtherNode \<Rightarrow> []) nodes)"

definition file_imports :: "world \<Rightarrow> string \<Rightarrow> string list option" where
  "file_imports w f =
     (case open_read w f of
        Inl e \<Rightarrow> None
      | Inr content \<Rightarrow>
          Some (if endswith f ''.py''
                then (case ast_parse_walk w content of Inl e \<Rightarrow> [] | Inr nodes \<Rightarrow> node_imports nodes)
                else if endswith f ''.dart'' then finditer_import content
                else []))"

definition resolved_targets :: "world \<Rightarrow> string \<Rightarrow> string \<Rightarrow> string list \<Rightarrow> string set" where
  "resolved_targets w root f imps =
     {t \<in> target_path root f ` set imps. os_path_exists w t = Inr True}"

definition file_targets :: "world \<Rightarrow> string \<Rightarrow> string \<Rightarrow> string set" where
  "file_targets w root f =
     (case file_imports w f of None \<Rightarrow> {} | Some imps \<Rightarrow> resolved_targets w root f imps)"

text \<open>The first local variable of \<^verbatim>\<open>os.path.normpath\<close>, for the proofs about normal
  paths.\<close>

definition initial_slashes_of :: "string \<Rightarrow> nat" where
  "initial_slashes_of path =
     (if startswith path ''/''
      then (if startswith path ''//'' \<and> \<not> startswith path ''///'' then 2 else 1)
      else 0)"

section \<open>Small projects\<close>

text \<open>
  The project of the first scenario: \<^verbatim>\<open>/proj\<close> holds \<^verbatim>\<open>a.py\<close> with the one statement
  \<^verbatim>\<open>import b\<close>, and the empty files \<^verbatim>\<open>b.py\<close> and \<^verbatim>\<open>c.py\<close>. The parser is given on the
  contents that occur: \<^verbatim>\<open>ast.walk\<close> yields the module, its \<^verbatim>\<open>Import\<close> and the alias.
\<close>

definition abc_world :: world where
  "abc_world =
     \<lparr>os_walk = (\<lambda>top. if top = ''/proj'' then [(''/proj'', [], [''a.py'', ''b.py'', ''c.py''])] else []),
      open_read = (\<lambda>p. if p = ''/proj/a.py'' then Inr ''import b''
                        else if p = ''/proj/b.py'' \<or> p = ''/proj/c.py'' then Inr [] else Inl OSError),
      os_path_exists = (\<lambda>p. Inr (p \<in> set [''/'', ''/proj'', ''/proj/a.py'', ''/proj/b.py'', ''/proj/c.py''])),
      ast_parse_walk = (\<lambda>c. if c = ''import b'' then Inr [OtherNode, Import [''b''], OtherNode]
                        else if c = [] then Inr [OtherNode] else Inl SyntaxError)\<rparr>"

text \<open>
  The project of the package scenario: \<^verbatim>\<open>/proj/main.dart\<close> holds the one line
  \<^verbatim>\<open>import 'package:app/NAME';\<close> and \<^verbatim>\<open>/proj/lib/app/NAME\<close> is an empty file.
\<close>

definition package_world :: "string \<Rightarrow> world" where
  "package_world name =
     \<lparr>os_walk = (\<lambda>top. if top = ''/proj''
                      then [(''/proj'', [''lib''], [''main.dart'']), (''/proj/lib'', [''app''], []),
                            (''/proj/lib/app'', [], [name])]
                      else []),
      open_read = (\<lambda>p. if p = ''/proj/main.dart''
                        then Inr (''import '' @ [CHR 0x27] @ ''package:app/'' @ name @ [CHR 0x27] @ '';'')
                        else if p = ''/proj/lib/app/'' @ name then Inr [] else Inl OSError),
      os_path_exists = (\<lambda>p. Inr (p \<in> set [''/'', ''/proj'', ''/proj/main.dart'', ''/proj/lib'',
                                            ''/proj/lib/app'', ''/proj/lib/app/'' @ name])),
      ast_parse_walk = (\<lambda>c. Inl SyntaxError)\<rparr>"

text \<open>
  A project with two files that cannot be analysed: \<^verbatim>\<open>bad.py\<close> is not Python, and
  \<^verbatim>\<open>latin1.py\<close> is not UTF-8. Here \<^verbatim>\<open>os.path.exists\<close> raises on a path with a null
  character, as it does before Python 3.8.
\<close>

definition faulty_world :: world where
  "faulty_world =
     \<lparr>os_walk = (\<lambda>top. if top = ''/proj'' then [(''/proj'', [], [''bad.py'', ''latin1.py''])] else []),
      open_read = (\<lambda>p. if p = ''/proj/bad.py'' then Inr ''def (''
                        else if p = ''/proj/latin1.py'' then Inl UnicodeDecodeError else Inl OSError),
      os_path_exists = (\<lambda>p. if CHR 0x00 \<in> set p then Inl ValueError
                             else Inr (p \<in> set [''/'', ''/proj'', ''/proj/bad.py'', ''/proj/latin1.py''])),
      ast_parse_walk = (\<lambda>c. if c = ''def ('' then Inl SyntaxError else Inr [OtherNode])\<rparr>"

section \<open>The resolver and the loops, step by step\<close>

lemma resolve_import_cases:
  "resolve_import w st f imp =
     (if os_path_exists w (target_path (project_root st) f imp) = Inr True
      then add_dependency f (target_path (project_root st) f imp) st else st)"
  by (auto simp: resolve_import_def resolve_import_try_def Let_def split: sum.splits)

lemma add_dependency_fields [simp]:
  "project_root (add_dependency f t st) = project_root st"
  "all_files (add_dependency f t st) = all_files st"
  "used_files (add_dependency f t st) = used_files st"
  "unused_files (add_dependency f t st) = unused_files st"
  by (simp_all add: add_dependency_def)

lemma add_dependency_map:
  "map_of (file_dependencies (add_dependency f t st)) =
     (map_of (file_dependencies st))(f \<mapsto> insert t (deps_of st f))"
  by (simp add: add_dependency_def deps_of_def update_conv')

lemma add_dependency_distinct:
  "distinct (map fst (file_dependencies st)) \<Longrightarrow>
   distinct (map fst (file_dependencies (add_dependency f t st)))"
  by (simp add: add_dependency_def distinct_update)

lemma resolve_import_fields [simp]:
  "project_root (resolve_import w st f imp) = project_root st"
  "all_files (resolve_import w st f imp) = all_files st"
  "used_files (resolve_import w st f imp) = used_files st"
  "unused_files (resolve_import w st f imp) = unused_files st"
  by (simp_all add: resolve_import_cases)

lemma resolve_import_distinct:
  "distinct (map fst (file_dependencies st)) \<Longrightarrow>
   distinct (map fst (file_dependencies (resolve_import w st f imp)))"
  by (simp add: resolve_import_cases add_dependency_distinct)

lemma resolve_names_fields [simp]:
  "project_root (resolve_names w st f imps) = project_root st"
  "all_files (resolve_names w st f imps) = all_files st"
  "used_files (resolve_names w st f imps) = used_files st"
  "unused_files (resolve_names w st f imps) = unused_files st"
  by (induction imps arbitrary: st; simp)+

lemma resolve_names_distinct:
  "distinct (map fst (file_dependencies st)) \<Longrightarrow>
   distinct (map fst (file_dependencies (resolve_names w st f imps)))"
  by (induction imps arbitrary: st) (simp_all add: resolve_import_distinct)

lemma resolve_names_append:
  "resolve_names w st f (xs @ ys) = resolve_names w (resolve_names w st f xs) f ys"
  by (induction xs arbitrary: st) simp_all

lemma resolved_targets_Nil [simp]: "resolved_targets w root f [] = {}"
  by (simp add: resolved_targets_def)

lemma resolved_targets_Cons:
  "resolved_targets w root f (imp # imps) =
     (if os_path_exists w (target_path root f imp) = Inr True
      then insert (target_path root f imp) (resolved_targets w root f imps)
      else resolved_targets w root f imps)"
  by (auto simp: resolved_targets_def)

lemma resolve_names_map:
  "map_of (file_dependencies (resolve_names w st f imps)) =
     (if resolved_targets w (project_root st) f imps = {} then map_of (file_dependencies st)
      else (map_of (file_dependencies st))
             (f \<mapsto> deps_of st f \<union> resolved_targets w (project_root st) f imps))"
proof (induction imps arbitrary: st)
  case Nil
  then show ?case by simp
next
  case (Cons imp imps)
  let ?t = "target_path (project_root st) f imp"
  show ?case
  proof (cases "os_path_exists w ?t = Inr True")
    case True
    have d: "deps_of (add_dependency f ?t st) f = insert ?t (deps_of st f)"
      by (simp add: deps_of_def add_dependency_map)
    show ?thesis
      using True
      by (auto simp: Cons.IH resolve_import_cases resolved_targets_Cons d add_dependency_map fun_eq_iff)
  next
    case False
    then show ?thesis
      by (simp add: Cons.IH resolve_import_cases resolved_targets_Cons)
  qed
qed

lemma walk_nodes_resolve_names:
  "walk_nodes w st f nodes = resolve_names w st f (node_imports nodes)"
proof (induction nodes arbitrary: st)
  case Nil
  then show ?case by (simp add: node_imports_def)
next
  case (Cons n nodes)
  then show ?case
    by (cases n) (auto simp: node_imports_def resolve_names_append split: option.splits)
qed

lemma analyze_file_cases:
  "analyze_file w st f =
     (case file_imports w f of
        None \<Rightarrow> st
      | Some imps \<Rightarrow> (resolve_names w st f imps)\<lparr>used_files := insert f (used_files st)\<rparr>)"
  by (auto simp: analyze_file_def file_imports_def analyze_python_imports_def
        analyze_dart_imports_def walk_nodes_resolve_names Let_def split: sum.splits)

lemma analyze_file_fields [simp]:
  "project_root (analyze_file w st f) = project_root st"
  "all_files (analyze_file w st f) = all_files st"
  "unused_files (analyze_file w st f) = unused_files st"
  by (simp_all add: analyze_file_cases split: option.splits)

lemma analyze_file_used:
  "used_files (analyze_file w st f) =
     (if file_imports w f = None then used_files st else insert f (used_files st))"
  by (simp add: analyze_file_cases split: option.splits)

lemma analyze_file_distinct:
  "distinct (map fst (file_dependencies st)) \<Longrightarrow>
   distinct (map fst (file_dependencies (analyze_file w st f)))"
  by (simp add: analyze_file_cases resolve_names_distinct split: option.splits)

lemma analyze_file_map:
  "map_of (file_dependencies (analyze_file w st f)) =
     (if file_targets w (project_root st) f = {} then map_of (file_dependencies st)
      else (map_of (file_dependencies st))
             (f \<mapsto> deps_of st f \<union> file_targets w (project_root st) f))"
  by (simp add: analyze_file_cases file_targets_def resolve_names_map split: option.splits)

lemma analyze_files_fields [simp]:
  "project_root (analyze_files w st files) = project_root st"
  "all_files (analyze_files w st files) = all_files st"
  "unused_files (analyze_files w st files) = unused_files st"
  by (induction files arbitrary: st; simp)+

lemma analyze_files_used:
  "used_files (analyze_files w st files) =
     used_files st \<union> {f \<in> set files. file_imports w f \<noteq> None}"
  by (induction files arbitrary: st) (auto simp: analyze_file_used)

lemma analyze_files_distinct:
  "distinct (map fst (file_dependencies st)) \<Longrightarrow>
   distinct (map fst (file_dependencies (analyze_files w st files)))"
  by (induction files arbitrary: st) (simp_all add: analyze_file_distinct)

lemma analyze_files_map:
  "map_of (file_dependencies (analyze_files w st files)) k =
     (if k \<in> set files \<and> file_targets w (project_root st) k \<noteq> {}
      then Some (deps_of st k \<union> file_targets w (project_root st) k)
      else map_of (file_dependencies st) k)"
proof (induction files arbitrary: st)
  case Nil
  then show ?case by simp
next
  case (Cons f files)
  let ?st1 = "analyze_file w st f"
  have d: "deps_of ?st1 k =
      (if k = f \<and> file_targets w (project_root st) f \<noteq> {}
       then deps_of st f \<union> file_targets w (project_root st) f else deps_of st k)"
    by (simp add: deps_of_def analyze_file_map)
  show ?case
    by (auto simp: Cons.IH d analyze_file_map)
qed

lemma fold_union_values:
  "fold (\<lambda>deps used. used \<union> deps) ds used = used \<union> \<Union> (set ds)"
  by (induction ds arbitrary: used) auto

section \<open>The projects, analysed\<close>

lemmas str_eval = endswith_def startswith_def suffix_to_prefix os_sep_def
lemmas path_eval = os_path_normpath_def os_path_dirname_def rfind_def rstrip_def Let_def

lemma abc_collect:
  "collect_all_files abc_world (init ''/proj'') =
     (init ''/proj'')\<lparr>all_files := [''/proj/a.py'', ''/proj/b.py'', ''/proj/c.py'']\<rparr>"
  by (simp add: collect_all_files_def init_def abc_world_def collected_suffixes_def set_add_def str_eval)

lemma abc_target: "target_path ''/proj'' ''/proj/a.py'' ''b'' = ''/proj/b.dart''"
  by (simp add: target_path_def str_eval path_eval)

lemma abc_run:
  "analyze_project abc_world (init ''/proj'') =
     \<lparr>project_root = ''/proj'', file_dependencies = [],
      all_files = [''/proj/a.py'', ''/proj/b.py'', ''/proj/c.py''],
      used_files = {''/proj/a.py'', ''/proj/b.py'', ''/proj/c.py''}, unused_files = {}\<rparr>"
  unfolding analyze_project_def abc_collect
  by (auto simp: analyze_imports_def analyze_file_def analyze_python_imports_def
      resolve_import_def resolve_import_try_def abc_target find_unused_files_def init_def
      abc_world_def str_eval)

lemma utils_collect:
  "collect_all_files (package_world ''utils.dart'') (init ''/proj'') =
     (init ''/proj'')\<lparr>all_files := [''/proj/main.dart'', ''/proj/lib/app/utils.dart'']\<rparr>"
  by (simp add: collect_all_files_def init_def package_world_def collected_suffixes_def set_add_def str_eval)

lemma utils_finditer:
  "finditer_import (''import '' @ [CHR 0x27] @ ''package:app/utils.dart'' @ [CHR 0x27] @ '';'')
     = [''package:app/utils.dart'']"
  by (simp add: match_import_def is_space_def is_quote_def str_eval)

lemma utils_target:
  "target_path ''/proj'' ''/proj/main.dart'' ''package:app/utils.dart'' = ''/proj/lib/app/utils.dart''"
  by (simp add: target_path_def str_eval path_eval)

lemma utils_run:
  "analyze_project (package_world ''utils.dart'') (init ''/proj'') =
     \<lparr>project_root = ''/proj'',
      file_dependencies = [(''/proj/main.dart'', {''/proj/lib/app/utils.dart''})],
      all_files = [''/proj/main.dart'', ''/proj/lib/app/utils.dart''],
      used_files = {''/proj/main.dart'', ''/proj/lib/app/utils.dart''}, unused_files = {}\<rparr>"
  unfolding analyze_project_def utils_collect
  apply (simp add: analyze_imports_def analyze_file_def analyze_dart_imports_def init_def package_world_def str_eval)
  apply (simp add: utils_finditer[simplified] utils_target resolve_import_def resolve_import_try_def add_dependency_def find_unused_files_def Let_def)
  apply auto
  done

lemma json_collect:
  "collect_all_files (package_world ''strings.json'') (init ''/proj'') =
     (init ''/proj'')\<lparr>all_files := [''/proj/main.dart'']\<rparr>"
  by (simp add: collect_all_files_def init_def package_world_def collected_suffixes_def set_add_def str_eval)

lemma json_finditer:
  "finditer_import (''import '' @ [CHR 0x27] @ ''package:app/strings.json'' @ [CHR 0x27] @ '';'')
     = [''package:app/strings.json'']"
  by (simp add: match_import_def is_space_def is_quote_def str_eval)

lemma json_target:
  "target_path ''/proj'' ''/proj/main.dart'' ''package:app/strings.json'' = ''/proj/lib/app/strings.json''"
  by (simp add: target_path_def str_eval path_eval)

lemma json_run:
  "analyze_project (package_world ''strings.json'') (init ''/proj'') =
     \<lparr>project_root = ''/proj'',
      file_dependencies = [(''/proj/main.dart'', {''/proj/lib/app/strings.json''})],
      all_files = [''/proj/main.dart''],
      used_files = {''/proj/main.dart'', ''/proj/lib/app/strings.json''}, unused_files = {}\<rparr>"
  unfolding analyze_project_def json_collect
  apply (simp add: analyze_imports_def analyze_file_def analyze_dart_imports_def init_def package_world_def str_eval)
  apply (simp add: json_finditer[simplified] json_target resolve_import_def resolve_import_try_def add_dependency_def find_unused_files_def Let_def)
  apply auto
  done

lemma faulty_collect:
  "collect_all_files faulty_world (init ''/proj'') =
     (init ''/proj'')\<lparr>all_files := [''/proj/bad.py'', ''/proj/latin1.py'']\<rparr>"
  by (simp add: collect_all_files_def init_def faulty_world_def collected_suffixes_def set_add_def str_eval)

lemma faulty_run:
  "analyze_project faulty_world (init ''/proj'') =
     \<lparr>project_root = ''/proj'', file_dependencies = [],
      all_files = [''/proj/bad.py'', ''/proj/latin1.py''],
      used_files = {''/proj/bad.py''}, unused_files = {''/proj/latin1.py''}\<rparr>"
  unfolding analyze_project_def faulty_collect
  by (auto simp: analyze_imports_def analyze_file_def analyze_python_imports_def
      find_unused_files_def init_def faulty_world_def str_eval)

lemma faulty_target:
  "target_path ''/proj'' ''/proj/main.dart'' [CHR ''x'', CHR 0x00] = [CHR ''/'', CHR ''p'', CHR ''r'', CHR ''o'', CHR ''j'', CHR ''/'', CHR ''x'', CHR 0x00, CHR ''.'', CHR ''d'', CHR ''a'', CHR ''r'', CHR ''t'']"
  by (simp add: target_path_def str_eval path_eval)

lemma missing_target: "target_path ''/proj'' ''/proj/main.dart'' ''missing'' = ''/proj/missing.dart''"
  by (simp add: target_path_def str_eval path_eval)

lemma sibling_target: "os_path_normpath (os_path_join (os_path_dirname ''/proj/a.py'') [''b.py'']) = ''/proj/b.py''"
  by (simp add: str_eval path_eval)

section \<open>The whole analysis\<close>

lemma collect_all_files_fields [simp]:
  "project_root (collect_all_files w st) = project_root st"
  "file_dependencies (collect_all_files w st) = file_dependencies st"
  "used_files (collect_all_files w st) = used_files st"
  "unused_files (collect_all_files w st) = unused_files st"
  by (simp_all add: collect_all_files_def)

lemma init_fields [simp]:
  "project_root (init root) = root"
  "file_dependencies (init root) = []"
  "all_files (init root) = []"
  "used_files (init root) = {}"
  "unused_files (init root) = {}"
  by (simp_all add: init_def)

lemma find_unused_files_fields [simp]:
  "project_root (find_unused_files st) = project_root st"
  "file_dependencies (find_unused_files st) = file_dependencies st"
  "all_files (find_unused_files st) = all_files st"
  by (simp_all add: find_unused_files_def Let_def)

lemma find_unused_files_used:
  "used_files (find_unused_files st) = used_files st \<union> \<Union> (snd ` set (file_dependencies st))"
  by (simp add: find_unused_files_def Let_def fold_union_values)

lemma find_unused_files_unused:
  "unused_files (find_unused_files st) = set (all_files st) - used_files (find_unused_files st)"
  by (simp add: find_unused_files_def Let_def)

lemma analysis_all_files:
  "all_files (analyze_project w st) = all_files (collect_all_files w st)"
  by (simp add: analyze_project_def analyze_imports_def)

lemma analysis_dependencies:
  "file_dependencies (analyze_project w st) =
     file_dependencies (analyze_imports w (collect_all_files w st))"
  by (simp add: analyze_project_def)

lemma analysis_used:
  "used_files (analyze_project w st) =
     used_files (analyze_imports w (collect_all_files w st))
       \<union> \<Union> (snd ` set (file_dependencies (analyze_project w st)))"
  by (simp add: analyze_project_def find_unused_files_used)

lemma analysis_unused:
  "unused_files (analyze_project w st) =
     set (all_files (analyze_project w st)) - used_files (analyze_project w st)"
  by (simp add: analyze_project_def find_unused_files_unused)

lemma analysis_scanned:
  "used_files (analyze_imports w (collect_all_files w (init root))) =
     {f \<in> set (all_files (analyze_project w (init root))). file_imports w f \<noteq> None}"
  by (simp add: analysis_all_files analyze_imports_def analyze_files_used)

lemma analysis_map:
  "map_of (file_dependencies (analyze_project w (init root))) k =
     (if k \<in> set (all_files (analyze_project w (init root))) \<and> file_targets w root k \<noteq> {}
      then Some (file_targets w root k) else None)"
  by (simp add: analysis_dependencies analysis_all_files analyze_imports_def analyze_files_map
      deps_of_def)

lemma analysis_distinct:
  "distinct (map fst (file_dependencies (analyze_project w (init root))))"
  by (simp add: analysis_dependencies analyze_imports_def analyze_files_distinct)

lemma analysis_entry:
  "(k, deps) \<in> set (file_dependencies (analyze_project w (init root))) \<longleftrightarrow>
     k \<in> set (all_files (analyze_project w (init root))) \<and> file_targets w root k \<noteq> {}
       \<and> deps = file_targets w root k"
proof -
  have "(k, deps) \<in> set (file_dependencies (analyze_project w (init root))) \<longleftrightarrow>
        map_of (file_dependencies (analyze_project w (init root))) k = Some deps"
    using analysis_distinct [of w root] by simp
  then show ?thesis by (auto simp: analysis_map)
qed

lemma file_targets_exist: "t \<in> file_targets w root f \<Longrightarrow> os_path_exists w t = Inr True"
  by (auto simp: file_targets_def resolved_targets_def split: option.splits)

text \<open>Python does not fix the order in which it iterates the set \<open>all_files\<close>; the graph
  and the used set do not depend on it.\<close>

lemma analyze_files_order:
  assumes "set xs = set ys"
  shows "map_of (file_dependencies (analyze_files w st xs)) =
           map_of (file_dependencies (analyze_files w st ys))"
    and "used_files (analyze_files w st xs) = used_files (analyze_files w st ys)"
  using assms by (simp_all add: fun_eq_iff analyze_files_map analyze_files_used)

lemma str_replace_char: "str_replace s [a] [b] = map (\<lambda>c. if c = a then b else c) s"
  by (induction s) auto

lemma str_replace_absent: "old \<noteq> [] \<Longrightarrow> \<not> sublist old s \<Longrightarrow> str_replace s old new = s"
  by (induction s) (auto simp: sublist_Cons_right)

lemma str_replace_prefix:
  "old \<noteq> [] \<Longrightarrow> str_replace (old @ s) old new = new @ str_replace s old new"
  by (cases old) simp_all

section \<open>Paths that are already normal\<close>

lemma normpath_unfold:
  "path \<noteq> [] \<Longrightarrow> os_path_normpath path =
     (if replicate (initial_slashes_of path) (CHR ''/'')
           @ str_join ''/'' (normpath_comps (initial_slashes_of path) (str_split path (CHR ''/'')) []) = []
      then ''.''
      else replicate (initial_slashes_of path) (CHR ''/'')
           @ str_join ''/'' (normpath_comps (initial_slashes_of path) (str_split path (CHR ''/'')) []))"
  by (simp add: os_path_normpath_def initial_slashes_of_def Let_def)

lemma endswith_sep: "endswith s ''/'' \<longleftrightarrow> s \<noteq> [] \<and> last s = CHR ''/''"
  by (cases s rule: rev_cases) (auto simp: endswith_def suffix_def)

lemma str_split_nonempty [simp]: "str_split s c \<noteq> []"
  by (induction s) (auto split: list.splits)

lemma str_split_append: "str_split (a @ c # b) c = str_split a c @ str_split b c"
  by (induction a) (auto split: list.splits)

lemma str_split_single: "c \<notin> set s \<Longrightarrow> str_split s c = [s]"
  by (induction s) auto

lemma str_split_no_sep: "w \<in> set (str_split s c) \<Longrightarrow> c \<notin> set w"
  by (induction s arbitrary: w) (auto split: if_splits list.splits)

lemma normpath_comps_append:
  "normpath_comps k (xs @ ys) acc = normpath_comps k ys (normpath_comps k xs acc)"
  by (induction xs arbitrary: acc) simp_all

lemma normpath_comps_all:
  assumes "\<forall>w \<in> set acc. P w" and "\<forall>w \<in> set xs. w \<noteq> [] \<longrightarrow> P w"
  shows "\<forall>w \<in> set (normpath_comps k xs acc). P w"
  using assms
proof (induction xs arbitrary: acc)
  case Nil
  then show ?case by simp
next
  case (Cons x xs)
  have r: "\<forall>w \<in> set xs. w \<noteq> [] \<longrightarrow> P w"
    using Cons.prems(2) by simp
  have a1: "\<forall>w \<in> set (acc @ [x]). P w" if "x \<noteq> []"
    using Cons.prems that by simp
  have a2: "\<forall>w \<in> set (butlast acc). P w"
    using Cons.prems(1) by (blast dest: in_set_butlastD)
  have i1: "\<forall>w \<in> set (normpath_comps k xs acc). P w"
    using Cons.prems(1) r by (rule Cons.IH)
  have i2: "\<forall>w \<in> set (normpath_comps k xs (butlast acc)). P w"
    using a2 r by (rule Cons.IH)
  have i3: "\<forall>w \<in> set (normpath_comps k xs (acc @ [x])). P w" if "x \<noteq> []"
    using a1 [OF that] r by (rule Cons.IH)
  show ?case
  proof (cases "x = []")
    case True
    then show ?thesis using i1 by simp
  next
    case False
    then show ?thesis using i1 i2 i3 [OF False] by simp
  qed
qed

lemma str_join_Cons: "ws \<noteq> [] \<Longrightarrow> str_join sep (w # ws) = w @ sep @ str_join sep ws"
  by (cases ws) simp_all

lemma str_join_snoc:
  "str_join sep (cs @ [w]) = (if cs = [] then w else str_join sep cs @ sep @ w)"
proof (induction cs)
  case Nil
  show ?case by simp
next
  case (Cons a cs)
  have "str_join sep ((a # cs) @ [w]) = a @ sep @ str_join sep (cs @ [w])"
    by (simp add: str_join_Cons)
  also have "\<dots> = str_join sep (a # cs) @ sep @ w"
  proof (cases "cs = []")
    case True
    then show ?thesis by simp
  next
    case False
    then show ?thesis by (simp add: Cons.IH str_join_Cons)
  qed
  finally show ?case by simp
qed

lemma str_join_last:
  "cs \<noteq> [] \<Longrightarrow> last cs \<noteq> [] \<Longrightarrow>
     str_join sep cs \<noteq> [] \<and> last (str_join sep cs) = last (last cs)"
proof (induction cs)
  case Nil
  then show ?case by simp
next
  case (Cons a cs)
  show ?case
  proof (cases "cs = []")
    case True
    with Cons.prems show ?thesis by simp
  next
    case False
    with Cons.prems have "last cs \<noteq> []" by simp
    with False have "str_join sep cs \<noteq> [] \<and> last (str_join sep cs) = last (last cs)"
      by (rule Cons.IH)
    with False show ?thesis by (simp add: str_join_Cons)
  qed
qed

lemma initial_slashes_append1:
  "d \<noteq> [] \<Longrightarrow> last d \<noteq> CHR ''/'' \<Longrightarrow> initial_slashes_of (d @ t) = initial_slashes_of d"
proof (cases d)
  case Nil
  then show "d \<noteq> [] \<Longrightarrow> ?thesis" by simp
next
  case (Cons x d1)
  assume l: "last d \<noteq> CHR ''/''"
  show ?thesis
  proof (cases d1)
    case Nil
    with Cons l show ?thesis by (simp add: initial_slashes_of_def startswith_def)
  next
    case c2: (Cons y d2)
    show ?thesis
    proof (cases d2)
      case Nil
      with Cons c2 l show ?thesis by (simp add: initial_slashes_of_def startswith_def)
    next
      case c3: (Cons z d3)
      with Cons c2 show ?thesis by (simp add: initial_slashes_of_def startswith_def)
    qed
  qed
qed

lemma initial_slashes_append2:
  assumes "t \<noteq> []" and "hd t \<noteq> CHR ''/''"
  shows "initial_slashes_of (d0 @ CHR ''/'' # t) = initial_slashes_of (d0 @ ''/'')"
proof -
  from assms obtain a t1 where t: "t = a # t1" and a: "a \<noteq> CHR ''/''"
    by (cases t) auto
  show ?thesis
  proof (cases d0)
    case Nil
    then show ?thesis using a by (simp add: t initial_slashes_of_def startswith_def)
  next
    case (Cons x d1)
    show ?thesis
    proof (cases d1)
      case Nil
      with Cons show ?thesis using a by (simp add: t initial_slashes_of_def startswith_def)
    next
      case c2: (Cons y d2)
      with Cons show ?thesis by (cases d2) (simp_all add: t initial_slashes_of_def startswith_def)
    qed
  qed
qed

lemma sibling_path_normal:
  assumes norm: "os_path_normpath d = d" and nd: "d \<noteq> ''.''"
    and ns: "CHR ''/'' \<notin> set name" and n0: "name \<noteq> []" and n1: "name \<noteq> ''.''" and n2: "name \<noteq> ''..''"
  shows "os_path_normpath (os_path_join d [name]) = os_path_join d [name]"
proof -
  define k where "k = initial_slashes_of d"
  define cs where "cs = normpath_comps k (str_split d (CHR ''/'')) []"
  have d0: "d \<noteq> []"
  proof
    assume "d = []"
    with norm have "os_path_normpath [] = []" by simp
    then show False by (simp add: os_path_normpath_def)
  qed
  have u: "os_path_normpath d = (if replicate k (CHR ''/'') @ str_join ''/'' cs = [] then ''.''
                               else replicate k (CHR ''/'') @ str_join ''/'' cs)"
    unfolding k_def cs_def using d0 by (rule normpath_unfold)
  have e: "d = (if replicate k (CHR ''/'') @ str_join ''/'' cs = [] then ''.''
                else replicate k (CHR ''/'') @ str_join ''/'' cs)"
    by (rule trans [OF norm [symmetric] u])
  have d: "d = replicate k (CHR ''/'') @ str_join ''/'' cs"
  proof (cases "replicate k (CHR ''/'') @ str_join ''/'' cs = []")
    case True
    with e have "d = ''.''" by simp
    with nd show ?thesis ..
  next
    case False
    with e show ?thesis by simp
  qed
  have "\<forall>w \<in> set (str_split d (CHR ''/'')). w \<noteq> [] \<longrightarrow> w \<noteq> [] \<and> CHR ''/'' \<notin> set w"
    by (auto dest: str_split_no_sep)
  then have "\<forall>w \<in> set cs. w \<noteq> [] \<and> CHR ''/'' \<notin> set w"
    unfolding cs_def by (intro normpath_comps_all) simp_all
  then have cs_ok: "w \<noteq> [] \<and> CHR ''/'' \<notin> set w" if "w \<in> set cs" for w
    using that by blast
  have one: "normpath_comps k' [name] acc = acc @ [name]" for k' acc
    using n0 n1 n2 by simp
  have nostart: "\<not> startswith name os_sep"
    using ns n0 by (cases name) (auto simp: startswith_def os_sep_def)
  show ?thesis
  proof (cases "last d = CHR ''/''")
    case False
    have j: "os_path_join d [name] = d @ CHR ''/'' # name"
      using nostart d0 False by (simp add: endswith_sep os_sep_def)
    have ki: "initial_slashes_of (d @ CHR ''/'' # name) = k"
      unfolding k_def using d0 False by (rule initial_slashes_append1)
    have cs: "cs \<noteq> []"
    proof
      assume "cs = []"
      with d have dd: "d = replicate k (CHR ''/'')" by simp
      with d0 have "k \<noteq> 0" by auto
      then have "last (replicate k (CHR ''/'')) = CHR ''/''" by (rule last_replicate)
      with dd False show False by simp
    qed
    have ne: "d @ CHR ''/'' # name \<noteq> []" by simp
    have comps: "normpath_comps k (str_split (d @ CHR ''/'' # name) (CHR ''/'')) [] = cs @ [name]"
      by (simp only: str_split_append str_split_single [OF ns] normpath_comps_append one
          cs_def [symmetric])
    have nej: "replicate k (CHR ''/'') @ str_join ''/'' (cs @ [name]) \<noteq> []"
      using n0 by (simp add: str_join_snoc)
    have "os_path_normpath (d @ CHR ''/'' # name)
            = replicate k (CHR ''/'') @ str_join ''/'' (cs @ [name])"
      using nej by (simp only: normpath_unfold [OF ne] ki comps if_False)
    also have "\<dots> = (replicate k (CHR ''/'') @ str_join ''/'' cs) @ CHR ''/'' # name"
      using cs by (simp add: str_join_snoc)
    also have "\<dots> = d @ CHR ''/'' # name"
      by (simp only: d [symmetric])
    finally show ?thesis by (simp only: j)
  next
    case True
    with d0 obtain d1 where d1: "d = d1 @ ''/''"
      by (cases d rule: rev_cases) auto
    have j: "os_path_join d [name] = d1 @ CHR ''/'' # name"
      using nostart by (simp add: endswith_sep os_sep_def d1)
    have hd: "hd name \<noteq> CHR ''/''"
      using n0 ns by (cases name) auto
    have ki: "initial_slashes_of (d1 @ CHR ''/'' # name) = k"
      unfolding k_def d1 using n0 hd by (rule initial_slashes_append2)
    have split_d: "str_split d (CHR ''/'') = str_split d1 (CHR ''/'') @ [[]]"
      unfolding d1 by (simp add: str_split_append)
    have cs1: "normpath_comps k (str_split d1 (CHR ''/'')) [] = cs"
      unfolding cs_def split_d by (simp add: normpath_comps_append)
    have cs: "cs = []"
    proof (rule ccontr)
      assume ne: "cs \<noteq> []"
      then have "last cs \<in> set cs" by simp
      then have l: "last cs \<noteq> [] \<and> CHR ''/'' \<notin> set (last cs)" by (rule cs_ok)
      with ne have sj: "str_join ''/'' cs \<noteq> [] \<and> last (str_join ''/'' cs) = last (last cs)"
        by (simp add: str_join_last)
      then have "last (replicate k (CHR ''/'') @ str_join ''/'' cs) = last (last cs)"
        by simp
      then have "last d = last (last cs)" by (simp only: d [symmetric])
      with True have "last (last cs) = CHR ''/''" by simp
      moreover have "last (last cs) \<in> set (last cs)" using l by simp
      ultimately have "CHR ''/'' \<in> set (last cs)" by simp
      with l show False by simp
    qed
    have ne: "d1 @ CHR ''/'' # name \<noteq> []" by simp
    have comps: "normpath_comps k (str_split (d1 @ CHR ''/'' # name) (CHR ''/'')) [] = cs @ [name]"
      by (simp only: str_split_append str_split_single [OF ns] normpath_comps_append one cs1)
    have nej: "replicate k (CHR ''/'') @ str_join ''/'' (cs @ [name]) \<noteq> []"
      using n0 by (simp add: str_join_snoc)
    have "os_path_normpath (d1 @ CHR ''/'' # name)
            = replicate k (CHR ''/'') @ str_join ''/'' (cs @ [name])"
      using nej by (simp only: normpath_unfold [OF ne] ki comps if_False)
    also have "\<dots> = replicate k (CHR ''/'') @ name"
      by (simp add: cs)
    also have "\<dots> = d @ name"
      using d cs by simp
    also have "\<dots> = d1 @ CHR ''/'' # name"
      by (simp add: d1)
    finally show ?thesis by (simp only: j)
  qed
qed

lemma plain_name_normal:
  assumes ns: "CHR ''/'' \<notin> set name" and n0: "name \<noteq> []" and n1: "name \<noteq> ''.''" and n2: "name \<noteq> ''..''"
  shows "os_path_normpath name = name"
proof -
  have k: "initial_slashes_of name = 0"
    using ns n0 by (cases name) (auto simp: initial_slashes_of_def startswith_def)
  have comps: "normpath_comps 0 (str_split name (CHR ''/'')) [] = [name]"
    using n0 n1 n2 by (simp add: str_split_single [OF ns])
  show ?thesis
    using n0 by (simp add: normpath_unfold [OF n0] k comps)
qed

lemma suffix_py_name:
  assumes "endswith name ''.py''"
  shows "name \<noteq> [] \<and> name \<noteq> ''.'' \<and> name \<noteq> ''..''"
proof -
  from assms obtain pre where "name = pre @ ''.py''"
    by (auto simp: endswith_def suffix_def)
  then have "3 \<le> length name" by simp
  then show ?thesis by auto
qed

text \<open>A relative path without \<^verbatim>\<open>.\<close> and \<^verbatim>\<open>..\<close> components, joined to a normal
  directory: normalization drops its empty components and nothing else.\<close>

lemma str_replace_same: "str_replace s [a] [a] = s"
  by (induction s) auto

lemma str_replace_sep_id: "str_replace s ''/'' os_sep = s"
  unfolding os_sep_def by (rule str_replace_same)

lemma join_one:
  "os_path_join d [rel] =
     (if startswith rel ''/'' then rel
      else if d = [] \<or> last d = CHR ''/'' then d @ rel
      else d @ ''/'' @ rel)"
  by (auto simp: os_sep_def endswith_sep)

lemma join_two: "os_path_join root [a, b] = os_path_join (os_path_join root [a]) [b]"
  by simp

lemma normpath_comps_plain:
  "\<forall>c \<in> set xs. c \<noteq> ''.'' \<and> c \<noteq> ''..'' \<Longrightarrow>
     normpath_comps k xs acc = acc @ filter (\<lambda>c. c \<noteq> []) xs"
  by (induction xs arbitrary: acc) simp_all

lemma str_join_append:
  "cs \<noteq> [] \<Longrightarrow> fs \<noteq> [] \<Longrightarrow>
     str_join sep (cs @ fs) = str_join sep cs @ sep @ str_join sep fs"
proof (induction cs)
  case Nil
  then show ?case by simp
next
  case (Cons a cs)
  show ?case
  proof (cases "cs = []")
    case True
    with Cons.prems show ?thesis by (simp add: str_join_Cons)
  next
    case False
    with Cons.prems have "str_join sep (cs @ fs) = str_join sep cs @ sep @ str_join sep fs"
      by (intro Cons.IH)
    with False show ?thesis by (simp add: str_join_Cons)
  qed
qed

lemma str_join_nonempty:
  "fs \<noteq> [] \<Longrightarrow> \<forall>c \<in> set fs. c \<noteq> [] \<Longrightarrow> str_join sep fs \<noteq> []"
proof (cases fs)
  case Nil
  then show "fs \<noteq> [] \<Longrightarrow> ?thesis" by simp
next
  case (Cons a as)
  assume "\<forall>c \<in> set fs. c \<noteq> []"
  with Cons have "a \<noteq> []" by simp
  with Cons show ?thesis by (cases as) simp_all
qed

lemma str_split_chars: "w \<in> set (str_split s c) \<Longrightarrow> set w \<subseteq> set s"
proof (induction s arbitrary: w)
  case Nil
  then show ?case by simp
next
  case (Cons x s)
  obtain v vs where sp: "str_split s c = v # vs"
    by (cases "str_split s c") simp_all
  have ih: "set u \<subseteq> set s" if "u \<in> set (v # vs)" for u
    using Cons.IH [of u] that by (simp only: sp)
  show ?case
  proof (cases "x = c")
    case True
    with Cons.prems have "w = [] \<or> w \<in> set (v # vs)" by (simp add: sp)
    then show ?thesis
    proof
      assume "w = []"
      then show ?thesis by simp
    next
      assume "w \<in> set (v # vs)"
      then have "set w \<subseteq> set s" by (rule ih)
      then show ?thesis by auto
    qed
  next
    case False
    with Cons.prems have "w = x # v \<or> w \<in> set vs" by (simp add: sp)
    then show ?thesis
    proof
      assume w: "w = x # v"
      have "set v \<subseteq> set s" by (rule ih) simp
      with w show ?thesis by auto
    next
      assume "w \<in> set vs"
      then have "w \<in> set (v # vs)" by simp
      then have "set w \<subseteq> set s" by (rule ih)
      then show ?thesis by auto
    qed
  qed
qed

lemma str_split_snoc_plain:
  assumes "c \<notin> set t"
  shows "str_split (s @ t) c = butlast (str_split s c) @ [last (str_split s c) @ t]"
proof (induction s)
  case Nil
  show ?case using assms by (simp add: str_split_single)
next
  case (Cons x s)
  obtain w ws where sp: "str_split s c = w # ws"
    by (cases "str_split s c") simp_all
  show ?case
  proof (cases "x = c")
    case True
    then show ?thesis by (simp add: Cons.IH sp)
  next
    case False
    show ?thesis
    proof (cases "ws = []")
      case True
      with False show ?thesis by (simp add: Cons.IH sp)
    next
      case ne: False
      then obtain v vs where "ws = v # vs" by (cases ws) simp_all
      with False show ?thesis by (simp add: Cons.IH sp)
    qed
  qed
qed

lemma plain_rel_normal:
  assumes norm: "os_path_normpath d = d" and nd: "d \<noteq> ''.''"
    and ns: "\<not> startswith rel ''/''"
    and pl: "\<forall>c \<in> set (str_split rel (CHR ''/'')). c \<noteq> ''.'' \<and> c \<noteq> ''..''"
  shows "os_path_normpath (os_path_join d [rel]) =
           (if filter (\<lambda>c. c \<noteq> []) (str_split rel (CHR ''/'')) = [] then d
            else if last d = CHR ''/''
              then d @ str_join ''/'' (filter (\<lambda>c. c \<noteq> []) (str_split rel (CHR ''/'')))
            else d @ ''/'' @ str_join ''/'' (filter (\<lambda>c. c \<noteq> []) (str_split rel (CHR ''/''))))"
proof -
  define k where "k = initial_slashes_of d"
  define cs where "cs = normpath_comps k (str_split d (CHR ''/'')) []"
  define fs where "fs = filter (\<lambda>c. c \<noteq> []) (str_split rel (CHR ''/''))"
  have d0: "d \<noteq> []"
  proof
    assume "d = []"
    with norm have "os_path_normpath [] = []" by simp
    then show False by (simp add: os_path_normpath_def)
  qed
  have u: "os_path_normpath d = (if replicate k (CHR ''/'') @ str_join ''/'' cs = [] then ''.''
                               else replicate k (CHR ''/'') @ str_join ''/'' cs)"
    unfolding k_def cs_def using d0 by (rule normpath_unfold)
  have e: "d = (if replicate k (CHR ''/'') @ str_join ''/'' cs = [] then ''.''
                else replicate k (CHR ''/'') @ str_join ''/'' cs)"
    by (rule trans [OF norm [symmetric] u])
  have dne: "replicate k (CHR ''/'') @ str_join ''/'' cs \<noteq> []"
  proof
    assume "replicate k (CHR ''/'') @ str_join ''/'' cs = []"
    with e have "d = ''.''" by simp
    with nd show False ..
  qed
  have d: "d = replicate k (CHR ''/'') @ str_join ''/'' cs"
    using e dne by simp
  have "\<forall>w \<in> set (str_split d (CHR ''/'')). w \<noteq> [] \<longrightarrow> w \<noteq> [] \<and> CHR ''/'' \<notin> set w"
    by (auto dest: str_split_no_sep)
  then have "\<forall>w \<in> set cs. w \<noteq> [] \<and> CHR ''/'' \<notin> set w"
    unfolding cs_def by (intro normpath_comps_all) simp_all
  then have cs_ok: "w \<noteq> [] \<and> CHR ''/'' \<notin> set w" if "w \<in> set cs" for w
    using that by blast
  have plain: "normpath_comps k' (str_split rel (CHR ''/'')) acc = acc @ fs" for k' acc
    unfolding fs_def using pl by (rule normpath_comps_plain)
  have res: "os_path_normpath (os_path_join d [rel]) =
           (if fs = [] then d else if last d = CHR ''/'' then d @ str_join ''/'' fs
            else d @ ''/'' @ str_join ''/'' fs)"
  proof (cases "last d = CHR ''/''")
    case False
    have j: "os_path_join d [rel] = d @ CHR ''/'' # rel"
      using ns d0 False by (simp add: endswith_sep os_sep_def)
    have ki: "initial_slashes_of (d @ CHR ''/'' # rel) = k"
      unfolding k_def using d0 False by (rule initial_slashes_append1)
    have cs: "cs \<noteq> []"
    proof
      assume "cs = []"
      with d have dd: "d = replicate k (CHR ''/'')" by simp
      with d0 have "k \<noteq> 0" by auto
      then have "last (replicate k (CHR ''/'')) = CHR ''/''" by (rule last_replicate)
      with dd False show False by simp
    qed
    have ne: "d @ CHR ''/'' # rel \<noteq> []" by simp
    have comps: "normpath_comps k (str_split (d @ CHR ''/'' # rel) (CHR ''/'')) [] = cs @ fs"
      by (simp only: str_split_append normpath_comps_append cs_def [symmetric] plain)
    have n: "os_path_normpath (d @ CHR ''/'' # rel)
            = (if replicate k (CHR ''/'') @ str_join ''/'' (cs @ fs) = [] then ''.''
               else replicate k (CHR ''/'') @ str_join ''/'' (cs @ fs))"
      by (simp only: normpath_unfold [OF ne] ki comps)
    show ?thesis
    proof (cases "fs = []")
      case True
      have "os_path_normpath (d @ CHR ''/'' # rel) = os_path_normpath d"
        unfolding n u by (simp add: True)
      then have "os_path_normpath (d @ CHR ''/'' # rel) = d"
        by (simp only: norm)
      with True show ?thesis unfolding j by simp
    next
      case fne: False
      have "str_join ''/'' (cs @ fs) = str_join ''/'' cs @ ''/'' @ str_join ''/'' fs"
        using cs fne by (rule str_join_append)
      then have "os_path_normpath (d @ CHR ''/'' # rel)
            = (replicate k (CHR ''/'') @ str_join ''/'' cs) @ ''/'' @ str_join ''/'' fs"
        unfolding n by simp
      also have "\<dots> = d @ ''/'' @ str_join ''/'' fs"
        by (simp only: d [symmetric])
      finally show ?thesis using fne False unfolding j by simp
    qed
  next
    case True
    with d0 obtain d1 where d1: "d = d1 @ ''/''"
      by (cases d rule: rev_cases) auto
    have j: "os_path_join d [rel] = d @ rel"
      using ns d0 True by (simp add: endswith_sep os_sep_def)
    have cs: "cs = []"
    proof (rule ccontr)
      assume ne: "cs \<noteq> []"
      then have "last cs \<in> set cs" by simp
      then have l: "last cs \<noteq> [] \<and> CHR ''/'' \<notin> set (last cs)" by (rule cs_ok)
      with ne have sj: "str_join ''/'' cs \<noteq> [] \<and> last (str_join ''/'' cs) = last (last cs)"
        by (simp add: str_join_last)
      then have "last (replicate k (CHR ''/'') @ str_join ''/'' cs) = last (last cs)"
        by simp
      then have "last d = last (last cs)" by (simp only: d [symmetric])
      with True have "last (last cs) = CHR ''/''" by simp
      moreover have "last (last cs) \<in> set (last cs)" using l by simp
      ultimately have "CHR ''/'' \<in> set (last cs)" by simp
      with l show False by simp
    qed
    have dk: "d = replicate k (CHR ''/'')"
      using d cs by simp
    show ?thesis
    proof (cases "rel = []")
      case r0: True
      then have f0: "fs = []" by (simp add: fs_def)
      have "os_path_join d [rel] = d" unfolding j using r0 by simp
      then have "os_path_normpath (os_path_join d [rel]) = d" by (simp only: norm)
      with f0 show ?thesis by simp
    next
      case rne: False
      have hd: "hd rel \<noteq> CHR ''/''"
        using ns rne by (cases rel) (auto simp: startswith_def)
      have ki: "initial_slashes_of (d1 @ CHR ''/'' # rel) = k"
        unfolding k_def d1 using rne hd by (rule initial_slashes_append2)
      have split_d: "str_split d (CHR ''/'') = str_split d1 (CHR ''/'') @ [[]]"
        unfolding d1 by (simp add: str_split_append)
      have cs1: "normpath_comps k (str_split d1 (CHR ''/'')) [] = cs"
        unfolding cs_def split_d by (simp add: normpath_comps_append)
      have ne: "d1 @ CHR ''/'' # rel \<noteq> []" by simp
      have comps: "normpath_comps k (str_split (d1 @ CHR ''/'' # rel) (CHR ''/'')) [] = cs @ fs"
        by (simp only: str_split_append normpath_comps_append cs1 plain)
      have n: "os_path_normpath (d1 @ CHR ''/'' # rel)
            = (if replicate k (CHR ''/'') @ str_join ''/'' (cs @ fs) = [] then ''.''
               else replicate k (CHR ''/'') @ str_join ''/'' (cs @ fs))"
        by (simp only: normpath_unfold [OF ne] ki comps)
      have kne: "replicate k (CHR ''/'') \<noteq> []"
        using dk d0 by simp
      have "os_path_normpath (d1 @ CHR ''/'' # rel) = replicate k (CHR ''/'') @ str_join ''/'' fs"
        unfolding n using kne by (simp add: cs)
      also have "\<dots> = d @ str_join ''/'' fs"
        by (simp only: dk [symmetric])
      finally have r: "os_path_normpath (d1 @ CHR ''/'' # rel) = d @ str_join ''/'' fs" .
      have "d @ rel = d1 @ CHR ''/'' # rel" by (simp add: d1)
      with r have "os_path_normpath (d @ rel) = d @ str_join ''/'' fs" by (simp only:)
      then have "os_path_normpath (os_path_join d [rel]) = d @ str_join ''/'' fs"
        by (simp only: j)
      moreover have "fs = [] \<Longrightarrow> d @ str_join ''/'' fs = d" by simp
      ultimately show ?thesis using True by (cases "fs = []") simp_all
    qed
  qed
  show ?thesis
    using res by (simp only: fs_def)
qed

lemma plain_rel_alone:
  assumes ns: "\<not> startswith rel ''/''"
    and pl: "\<forall>c \<in> set (str_split rel (CHR ''/'')). c \<noteq> ''.'' \<and> c \<noteq> ''..''"
    and fne: "filter (\<lambda>c. c \<noteq> []) (str_split rel (CHR ''/'')) \<noteq> []"
  shows "os_path_normpath rel = str_join ''/'' (filter (\<lambda>c. c \<noteq> []) (str_split rel (CHR ''/'')))"
proof -
  define fs where "fs = filter (\<lambda>c. c \<noteq> []) (str_split rel (CHR ''/''))"
  have rne: "rel \<noteq> []"
    using fne by auto
  have k: "initial_slashes_of rel = 0"
    using ns by (simp add: initial_slashes_of_def)
  have comps: "normpath_comps 0 (str_split rel (CHR ''/'')) [] = fs"
    unfolding fs_def using normpath_comps_plain [OF pl, of 0 "[]"] by simp
  have "\<forall>c \<in> set fs. c \<noteq> []" by (simp add: fs_def)
  moreover have "fs \<noteq> []" using fne by (simp add: fs_def)
  ultimately have "str_join ''/'' fs \<noteq> []" by (intro str_join_nonempty)
  then have "os_path_normpath rel = str_join ''/'' fs"
    by (simp add: normpath_unfold [OF rne] k comps)
  then show ?thesis by (simp only: fs_def)
qed

lemma dots_replaced:
  "str_replace s ''.'' os_sep = map (\<lambda>c. if c = CHR ''.'' then CHR ''/'' else c) s"
  by (simp add: os_sep_def str_replace_char)

lemma no_dots_left: "CHR ''.'' \<notin> set (map (\<lambda>c. if c = CHR ''.'' then CHR ''/'' else c) s)"
  by (induction s) auto

lemma dart_comps_plain:
  assumes "CHR ''.'' \<notin> set m"
  shows "\<forall>c \<in> set (str_split (m @ ''.dart'') (CHR ''/'')). c \<noteq> ''.'' \<and> c \<noteq> ''..''"
    and "filter (\<lambda>c. c \<noteq> []) (str_split (m @ ''.dart'') (CHR ''/'')) \<noteq> []"
proof -
  have sp: "str_split (m @ ''.dart'') (CHR ''/'')
              = butlast (str_split m (CHR ''/'')) @ [last (str_split m (CHR ''/'')) @ ''.dart'']"
    by (rule str_split_snoc_plain) simp
  show "\<forall>c \<in> set (str_split (m @ ''.dart'') (CHR ''/'')). c \<noteq> ''.'' \<and> c \<noteq> ''..''"
  proof
    fix c
    assume "c \<in> set (str_split (m @ ''.dart'') (CHR ''/''))"
    then consider "c \<in> set (butlast (str_split m (CHR ''/'')))"
      | "c = last (str_split m (CHR ''/'')) @ ''.dart''"
      unfolding sp by auto
    then show "c \<noteq> ''.'' \<and> c \<noteq> ''..''"
    proof cases
      case 1
      then have "c \<in> set (str_split m (CHR ''/''))" by (rule in_set_butlastD)
      then have "set c \<subseteq> set m" by (rule str_split_chars)
      with assms have "CHR ''.'' \<notin> set c" by auto
      then show ?thesis by auto
    next
      case 2
      then have "5 \<le> length c" by simp
      then show ?thesis by auto
    qed
  qed
  have "last (str_split m (CHR ''/'')) @ ''.dart'' \<in> set (str_split (m @ ''.dart'') (CHR ''/''))"
    unfolding sp by simp
  moreover have "last (str_split m (CHR ''/'')) @ ''.dart'' \<noteq> []" by simp
  ultimately show "filter (\<lambda>c. c \<noteq> []) (str_split (m @ ''.dart'') (CHR ''/'')) \<noteq> []"
    unfolding filter_empty_conv by blast
qed

lemma dotted_rel_start:
  assumes "\<not> startswith imp ''.''" and "\<not> startswith imp ''/''"
  shows "\<not> startswith (map (\<lambda>c. if c = CHR ''.'' then CHR ''/'' else c) imp @ ''.dart'') ''/''"
  using assms by (cases imp) (auto simp: startswith_def)

lemma join_lib:
  "os_path_join root [''lib'']
     = (if root = [] \<or> last root = CHR ''/'' then root @ ''lib'' else root @ ''/lib'')"
  unfolding join_one by (simp add: startswith_def)

lemma dotted_parent_target:
  "target_path ''/proj'' ''/proj/src/main.dart'' ''../utils/helper.dart'' = ''/utils/helper/dart.dart''"
  by (simp add: target_path_def str_eval path_eval)

section \<open>The claims\<close>

text \<open>
  C1, as stated, fails. For the project that holds exactly \<^verbatim>\<open>a.py\<close> (the statement
  \<^verbatim>\<open>import b\<close>), \<^verbatim>\<open>b.py\<close> and \<^verbatim>\<open>c.py\<close> (both empty), the analysis does not return the
  graph \<^verbatim>\<open>{a.py: [b.py]}\<close>, nor the used set \<^verbatim>\<open>{a.py, b.py}\<close>, nor the unused set
  \<^verbatim>\<open>{c.py}\<close>: the import \<^verbatim>\<open>b\<close> is looked up as \<^verbatim>\<open>b.dart\<close>, and \<^verbatim>\<open>c.py\<close> was opened,
  which makes it used. Paths are written in full; the project root is \<^verbatim>\<open>/proj\<close>.
\<close>

theorem scenario_abc_counterexample:
  "file_dependencies (analyze_project abc_world (init ''/proj''))
     \<noteq> [(''/proj/a.py'', {''/proj/b.py''})]
   \<and> used_files (analyze_project abc_world (init ''/proj'')) \<noteq> {''/proj/a.py'', ''/proj/b.py''}
   \<and> unused_files (analyze_project abc_world (init ''/proj'')) \<noteq> {''/proj/c.py''}"
proof -
  let ?r = "analyze_project abc_world (init ''/proj'')"
  have g: "file_dependencies ?r = []" by (simp add: abc_run)
  have c: "''/proj/c.py'' \<in> used_files ?r" by (simp add: abc_run)
  have n: "''/proj/c.py'' \<notin> {''/proj/a.py'', ''/proj/b.py''}" by simp
  have u: "unused_files ?r = {}" by (simp add: abc_run)
  have "used_files ?r \<noteq> {''/proj/a.py'', ''/proj/b.py''}"
  proof
    assume "used_files ?r = {''/proj/a.py'', ''/proj/b.py''}"
    with c have "''/proj/c.py'' \<in> {''/proj/a.py'', ''/proj/b.py''}" by (simp only:)
    with n show False ..
  qed
  then show ?thesis by (simp add: g u)
qed

text \<open>
  C1, as the code has it. For the project that holds exactly \<^verbatim>\<open>a.py\<close> (the statement
  \<^verbatim>\<open>import b\<close>), \<^verbatim>\<open>b.py\<close> and \<^verbatim>\<open>c.py\<close> (both empty), the analysis gives the used set
  \<^verbatim>\<open>{a.py, b.py, c.py}\<close> and an empty unused set: every file that was opened counts as
  used.
\<close>

theorem scenario_abc:
  "used_files (analyze_project abc_world (init ''/proj''))
     = {''/proj/a.py'', ''/proj/b.py'', ''/proj/c.py''}
   \<and> unused_files (analyze_project abc_world (init ''/proj'')) = {}"
  by (simp add: abc_run)

text \<open>
  C2, as stated, fails. When \<^verbatim>\<open>main.dart\<close> holds \<^verbatim>\<open>import 'package:app/strings.json';\<close>
  and \<^verbatim>\<open>lib/app/strings.json\<close> exists, that file is a target, so it is in the used set,
  and it was not collected: the union of the used and the unused set is not the set of
  collected files.
\<close>

theorem used_unused_partition_counterexample:
  "used_files (analyze_project (package_world ''strings.json'') (init ''/proj''))
     \<union> unused_files (analyze_project (package_world ''strings.json'') (init ''/proj''))
   \<noteq> set (all_files (analyze_project (package_world ''strings.json'') (init ''/proj'')))"
proof -
  let ?r = "analyze_project (package_world ''strings.json'') (init ''/proj'')"
  have c: "''/proj/lib/app/strings.json'' \<in> used_files ?r \<union> unused_files ?r"
    by (simp add: json_run)
  have n: "''/proj/lib/app/strings.json'' \<notin> set (all_files ?r)"
    by (simp add: json_run)
  show ?thesis
  proof
    assume "used_files ?r \<union> unused_files ?r = set (all_files ?r)"
    with c have "''/proj/lib/app/strings.json'' \<in> set (all_files ?r)" by (simp only:)
    with n show False ..
  qed
qed

text \<open>
  C2, as the code has it. After an analysis the used and the unused set are disjoint,
  the unused set is the collected files less the used set, so every collected file is in
  exactly one of the two; their union is the set of collected files exactly when every
  target of the graph is a collected file.
\<close>

theorem used_unused_partition:
  "used_files (analyze_project w (init root)) \<inter> unused_files (analyze_project w (init root)) = {}
   \<and> unused_files (analyze_project w (init root))
       = set (all_files (analyze_project w (init root))) - used_files (analyze_project w (init root))
   \<and> set (all_files (analyze_project w (init root)))
       \<subseteq> used_files (analyze_project w (init root)) \<union> unused_files (analyze_project w (init root))
   \<and> (used_files (analyze_project w (init root)) \<union> unused_files (analyze_project w (init root))
         = set (all_files (analyze_project w (init root)))
       \<longleftrightarrow> (\<forall>(k, deps) \<in> set (file_dependencies (analyze_project w (init root))).
              deps \<subseteq> set (all_files (analyze_project w (init root)))))"
proof -
  let ?r = "analyze_project w (init root)"
  have u: "unused_files ?r = set (all_files ?r) - used_files ?r"
    by (rule analysis_unused)
  have s: "used_files ?r = {f \<in> set (all_files ?r). file_imports w f \<noteq> None}
             \<union> \<Union> (snd ` set (file_dependencies ?r))"
    using analysis_used [of w "init root"] by (simp only: analysis_scanned)
  have "used_files ?r \<subseteq> set (all_files ?r) \<longleftrightarrow>
          (\<forall>(k, deps) \<in> set (file_dependencies ?r). deps \<subseteq> set (all_files ?r))"
    unfolding s by force
  then show ?thesis using u by auto
qed

theorem used_unused_partition_witness:
  "used_files (analyze_project (package_world ''utils.dart'') (init ''/proj''))
     \<union> unused_files (analyze_project (package_world ''utils.dart'') (init ''/proj''))
   = set (all_files (analyze_project (package_world ''utils.dart'') (init ''/proj'')))"
proof -
  have "\<forall>(k, deps) \<in> set (file_dependencies (analyze_project (package_world ''utils.dart'') (init ''/proj''))).
          deps \<subseteq> set (all_files (analyze_project (package_world ''utils.dart'') (init ''/proj'')))"
    by (simp add: utils_run)
  with used_unused_partition [of "package_world ''utils.dart''" "''/proj''"]
  show ?thesis by blast
qed

text \<open>
  C3. When the candidate path does not exist (or the test raises), the resolver changes
  nothing, so no edge is created; and after an analysis every target of every entry of
  the dependency graph is a path that exists.
\<close>

theorem missing_target_no_edge:
  "(os_path_exists w (target_path (project_root st) source_file import_path) \<noteq> Inr True \<longrightarrow>
      resolve_import w st source_file import_path = st)
   \<and> (\<forall>(k, deps) \<in> set (file_dependencies (analyze_project w (init root))).
        \<forall>t \<in> deps. os_path_exists w t = Inr True)"
  by (auto simp: resolve_import_cases analysis_entry file_targets_exist)

theorem missing_target_no_edge_witness:
  "resolve_import (package_world ''utils.dart'') (init ''/proj'') ''/proj/main.dart'' ''missing''
     = init ''/proj''
   \<and> os_path_exists (package_world ''utils.dart'') ''/proj/lib/app/utils.dart'' = Inr True"
proof -
  have 1: "os_path_exists (package_world ''utils.dart'')
             (target_path (project_root (init ''/proj'')) ''/proj/main.dart'' ''missing'') \<noteq> Inr True"
    by (simp add: missing_target package_world_def)
  from missing_target_no_edge [of "package_world ''utils.dart''" "init ''/proj''"
      "''/proj/main.dart''" "''missing''" "''/proj''"] 1
  show ?thesis by (simp add: utils_run)
qed

text \<open>
  C4, as stated, fails. The import \<^verbatim>\<open>../utils/helper.dart\<close> has no \<^verbatim>\<open>.py\<close> suffix and no
  \<^verbatim>\<open>package:\<close> prefix. Its dots become separators, so the string begins with the
  separator, and \<^verbatim>\<open>os.path.join\<close> drops the directory of the importing file: from
  \<^verbatim>\<open>/proj/src/main.dart\<close> the candidate is \<^verbatim>\<open>/utils/helper/dart.dart\<close>, which is not below
  \<^verbatim>\<open>/proj/src\<close>.
\<close>

theorem dotted_module_counterexample:
  "\<not> endswith ''../utils/helper.dart'' ''.py''
   \<and> \<not> startswith ''../utils/helper.dart'' ''package:''
   \<and> os_path_dirname ''/proj/src/main.dart'' = ''/proj/src''
   \<and> target_path ''/proj'' ''/proj/src/main.dart'' ''../utils/helper.dart''
       = ''/utils/helper/dart.dart''
   \<and> \<not> startswith ''/utils/helper/dart.dart'' ''/proj/src''"
  unfolding dotted_parent_target by (simp add: str_eval path_eval)

text \<open>
  C4, as the code has it. For an import string that does not end in \<^verbatim>\<open>.py\<close>, does not
  start with \<^verbatim>\<open>package:\<close> and does not begin with a dot or with the separator, the
  candidate path is the normalized form of: the directory of the importing file, the
  separator, the import with every dot replaced by the separator, and \<^verbatim>\<open>.dart\<close>; the
  resolver records an edge to it exactly when it exists. When the directory of the
  importing file is normalized (or empty), the candidate is that directory followed by
  the non-empty components of the replaced import, with one separator between them.
\<close>

theorem dotted_module_resolution:
  assumes "\<not> endswith import_path ''.py''" and "\<not> startswith import_path ''package:''"
    and "\<not> startswith import_path ''.''" and "\<not> startswith import_path ''/''"
  shows "target_path root source_file import_path
           = os_path_normpath
               ((if os_path_dirname source_file = [] then []
                 else if last (os_path_dirname source_file) = CHR ''/''
                   then os_path_dirname source_file
                 else os_path_dirname source_file @ ''/'')
                @ map (\<lambda>c. if c = CHR ''.'' then CHR ''/'' else c) import_path @ ''.dart'')
         \<and> resolve_import w st source_file import_path
           = (if os_path_exists w (target_path (project_root st) source_file import_path) = Inr True
              then add_dependency source_file
                     (target_path (project_root st) source_file import_path) st
              else st)
         \<and> (os_path_dirname source_file = []
              \<or> os_path_normpath (os_path_dirname source_file) = os_path_dirname source_file
                \<and> os_path_dirname source_file \<noteq> ''.'' \<longrightarrow>
             target_path root source_file import_path
               = (if os_path_dirname source_file = [] then []
                  else if last (os_path_dirname source_file) = CHR ''/''
                    then os_path_dirname source_file
                  else os_path_dirname source_file @ ''/'')
                 @ str_join ''/''
                     (filter (\<lambda>c. c \<noteq> [])
                        (str_split
                           (map (\<lambda>c. if c = CHR ''.'' then CHR ''/'' else c) import_path @ ''.dart'')
                           (CHR ''/''))))"
proof -
  let ?d = "os_path_dirname source_file"
  let ?rel = "map (\<lambda>c. if c = CHR ''.'' then CHR ''/'' else c) import_path @ ''.dart''"
  let ?pre = "if ?d = [] then [] else if last ?d = CHR ''/'' then ?d else ?d @ ''/''"
  let ?fs = "filter (\<lambda>c. c \<noteq> []) (str_split ?rel (CHR ''/''))"
  have t: "target_path root source_file import_path = os_path_normpath (os_path_join ?d [?rel])"
    by (simp only: target_path_def assms(1) assms(2) if_False dots_replaced)
  have ns: "\<not> startswith ?rel ''/''"
    using assms(3) assms(4) by (rule dotted_rel_start)
  have pl: "\<forall>c \<in> set (str_split ?rel (CHR ''/'')). c \<noteq> ''.'' \<and> c \<noteq> ''..''"
    by (rule dart_comps_plain(1) [OF no_dots_left])
  have fne: "?fs \<noteq> []"
    by (rule dart_comps_plain(2) [OF no_dots_left])
  have "os_path_join ?d [?rel] = (if ?d = [] \<or> last ?d = CHR ''/'' then ?d @ ?rel else ?d @ ''/'' @ ?rel)"
    by (simp only: join_one ns if_False)
  also have "\<dots> = ?pre @ ?rel"
    by simp
  finally have j: "os_path_join ?d [?rel] = ?pre @ ?rel" .
  have 1: "target_path root source_file import_path = os_path_normpath (?pre @ ?rel)"
    by (simp only: t j)
  have 2: "resolve_import w st source_file import_path
           = (if os_path_exists w (target_path (project_root st) source_file import_path) = Inr True
              then add_dependency source_file
                     (target_path (project_root st) source_file import_path) st
              else st)"
    by (rule resolve_import_cases)
  have 3: "target_path root source_file import_path = ?pre @ str_join ''/'' ?fs"
    if h: "?d = [] \<or> os_path_normpath ?d = ?d \<and> ?d \<noteq> ''.''"
  proof (cases "?d = []")
    case True
    have "os_path_normpath ?rel = str_join ''/'' ?fs"
      using ns pl fne by (rule plain_rel_alone)
    with True show ?thesis by (simp add: 1)
  next
    case False
    with h have norm: "os_path_normpath ?d = ?d" and nd: "?d \<noteq> ''.''" by blast+
    have "os_path_normpath (os_path_join ?d [?rel]) =
           (if ?fs = [] then ?d
            else if last ?d = CHR ''/'' then ?d @ str_join ''/'' ?fs
            else ?d @ ''/'' @ str_join ''/'' ?fs)"
      using norm nd ns pl by (rule plain_rel_normal)
    then have "target_path root source_file import_path =
           (if last ?d = CHR ''/'' then ?d @ str_join ''/'' ?fs
            else ?d @ ''/'' @ str_join ''/'' ?fs)"
      using fne by (simp only: t if_False)
    with False show ?thesis by simp
  qed
  from 1 2 3 show ?thesis by blast
qed

theorem dotted_module_resolution_witness:
  "target_path ''/proj'' ''/proj/src/main.dart'' ''a..b'' = ''/proj/src/a/b.dart''"
proof -
  have 1: "\<not> endswith ''a..b'' ''.py''" by (simp add: str_eval)
  have 2: "\<not> startswith ''a..b'' ''package:''" by (simp add: str_eval)
  have 3: "\<not> startswith ''a..b'' ''.''" by (simp add: str_eval)
  have 4: "\<not> startswith ''a..b'' ''/''" by (simp add: str_eval)
  have d: "os_path_dirname ''/proj/src/main.dart'' = ''/proj/src''"
    by (simp add: str_eval path_eval)
  have n: "os_path_normpath ''/proj/src'' = ''/proj/src''"
    by (simp add: str_eval path_eval)
  have 5: "os_path_dirname ''/proj/src/main.dart'' = []
           \<or> os_path_normpath (os_path_dirname ''/proj/src/main.dart'')
               = os_path_dirname ''/proj/src/main.dart''
             \<and> os_path_dirname ''/proj/src/main.dart'' \<noteq> ''.''"
    unfolding d n by simp
  from dotted_module_resolution [OF 1 2 3 4, of "''/proj''" "''/proj/src/main.dart''"] 5
  have "target_path ''/proj'' ''/proj/src/main.dart'' ''a..b''
          = (if os_path_dirname ''/proj/src/main.dart'' = [] then []
             else if last (os_path_dirname ''/proj/src/main.dart'') = CHR ''/''
               then os_path_dirname ''/proj/src/main.dart''
             else os_path_dirname ''/proj/src/main.dart'' @ ''/'')
            @ str_join ''/''
                (filter (\<lambda>c. c \<noteq> [])
                   (str_split (map (\<lambda>c. if c = CHR ''.'' then CHR ''/'' else c) ''a..b'' @ ''.dart'')
                      (CHR ''/'')))"
    by blast
  then show ?thesis unfolding d by simp
qed

text \<open>
  C5, as stated, fails. The import \<^verbatim>\<open>package:x.py\<close> starts with the prefix and is resolved
  against the directory of the importing file, since the test for \<^verbatim>\<open>.py\<close> comes first;
  in \<^verbatim>\<open>package:a/package:b.dart\<close> \<^verbatim>\<open>str.replace\<close> removes the second \<^verbatim>\<open>package:\<close> too,
  which stripping the prefix would keep; and the rest of \<^verbatim>\<open>package:/etc/x.dart\<close> begins
  with the separator, so \<^verbatim>\<open>os.path.join\<close> drops the \<^verbatim>\<open>lib\<close> directory and the candidate
  is \<^verbatim>\<open>/etc/x.dart\<close>.
\<close>

theorem package_import_counterexample:
  "startswith ''package:x.py'' ''package:''
   \<and> target_path ''/proj'' ''/proj/src/main.dart'' ''package:x.py'' = ''/proj/src/package:x.py''
   \<and> os_path_normpath (os_path_join ''/proj''
        [''lib'', str_replace (drop 8 ''package:x.py'') ''/'' os_sep]) = ''/proj/lib/x.py''
   \<and> startswith ''package:a/package:b.dart'' ''package:''
   \<and> target_path ''/proj'' ''/proj/src/main.dart'' ''package:a/package:b.dart'' = ''/proj/lib/a/b.dart''
   \<and> os_path_normpath (os_path_join ''/proj''
        [''lib'', str_replace (drop 8 ''package:a/package:b.dart'') ''/'' os_sep])
       = ''/proj/lib/a/package:b.dart''
   \<and> startswith ''package:/etc/x.dart'' ''package:''
   \<and> target_path ''/proj'' ''/proj/src/main.dart'' ''package:/etc/x.dart'' = ''/etc/x.dart''
   \<and> \<not> startswith ''/etc/x.dart'' ''/proj/lib''"
  by (simp add: target_path_def str_eval path_eval)

text \<open>
  C5, as the code has it. For an import string that starts with \<^verbatim>\<open>package:\<close>, does not
  end in \<^verbatim>\<open>.py\<close>, has no second \<^verbatim>\<open>package:\<close> in it and whose rest after the prefix does
  not begin with the separator, the candidate path is the normalized form of: the
  project root, \<^verbatim>\<open>lib\<close>, and the rest with its \<^verbatim>\<open>/\<close> replaced by the directory separator;
  the edge is recorded exactly when the candidate exists. When the project root is
  normalized (or empty) and no component of the rest is \<^verbatim>\<open>.\<close> or \<^verbatim>\<open>..\<close>, the candidate is
  the \<^verbatim>\<open>lib\<close> directory of the root followed by the non-empty components of the rest. In
  the project of \<^verbatim>\<open>main.dart\<close> with \<^verbatim>\<open>import 'package:app/utils.dart';\<close> the graph is the
  one edge from \<^verbatim>\<open>main.dart\<close> to \<^verbatim>\<open>lib/app/utils.dart\<close>.
\<close>

theorem package_import_resolution:
  "(startswith import_path ''package:'' \<and> \<not> endswith import_path ''.py''
      \<and> \<not> sublist ''package:'' (drop 8 import_path)
      \<and> \<not> startswith (drop 8 import_path) ''/'' \<longrightarrow>
      target_path root source_file import_path
        = os_path_normpath
            ((if root = [] \<or> last root = CHR ''/'' then root @ ''lib'' else root @ ''/lib'')
             @ ''/'' @ str_replace (drop 8 import_path) ''/'' os_sep)
      \<and> resolve_import w st source_file import_path
        = (if os_path_exists w (target_path (project_root st) source_file import_path) = Inr True
           then add_dependency source_file
                  (target_path (project_root st) source_file import_path) st
           else st)
      \<and> ((root = [] \<or> os_path_normpath root = root \<and> root \<noteq> ''.'')
           \<and> (\<forall>c \<in> set (str_split (str_replace (drop 8 import_path) ''/'' os_sep) (CHR ''/'')).
                 c \<noteq> ''.'' \<and> c \<noteq> ''..'') \<longrightarrow>
          target_path root source_file import_path
            = (if root = [] \<or> last root = CHR ''/'' then root @ ''lib'' else root @ ''/lib'')
              @ (if filter (\<lambda>c. c \<noteq> [])
                      (str_split (str_replace (drop 8 import_path) ''/'' os_sep) (CHR ''/'')) = []
                 then []
                 else ''/'' @ str_join ''/''
                        (filter (\<lambda>c. c \<noteq> [])
                           (str_split (str_replace (drop 8 import_path) ''/'' os_sep) (CHR ''/''))))))
   \<and> file_dependencies (analyze_project (package_world ''utils.dart'') (init ''/proj''))
       = [(''/proj/main.dart'', {''/proj/lib/app/utils.dart''})]"
proof -
  let ?r = "str_replace (drop 8 import_path) ''/'' os_sep"
  let ?base = "if root = [] \<or> last root = CHR ''/'' then root @ ''lib'' else root @ ''/lib''"
  let ?fs = "filter (\<lambda>c. c \<noteq> []) (str_split ?r (CHR ''/''))"
  have rid: "?r = drop 8 import_path"
    by (rule str_replace_sep_id)
  have bne: "?base \<noteq> []" by simp
  have bl: "last ?base \<noteq> CHR ''/''" by simp
  have general:
    "target_path root source_file import_path = os_path_normpath (?base @ ''/'' @ ?r)
     \<and> ((root = [] \<or> os_path_normpath root = root \<and> root \<noteq> ''.'')
           \<and> (\<forall>c \<in> set (str_split ?r (CHR ''/'')). c \<noteq> ''.'' \<and> c \<noteq> ''..'') \<longrightarrow>
          target_path root source_file import_path
            = ?base @ (if ?fs = [] then [] else ''/'' @ str_join ''/'' ?fs))"
    if p: "startswith import_path ''package:''" and n: "\<not> endswith import_path ''.py''"
      and o: "\<not> sublist ''package:'' (drop 8 import_path)"
      and s: "\<not> startswith (drop 8 import_path) ''/''"
  proof -
    from p obtain rest where i: "import_path = ''package:'' @ rest"
      by (auto simp: startswith_def prefix_def)
    have "str_replace import_path ''package:'' [] = str_replace rest ''package:'' []"
      unfolding i by (subst str_replace_prefix) simp_all
    also have "\<dots> = rest"
      using o by (simp add: str_replace_absent i)
    finally have h: "str_replace import_path ''package:'' [] = drop 8 import_path"
      by (simp add: i)
    have t: "target_path root source_file import_path
               = os_path_normpath (os_path_join (os_path_join root [''lib'']) [?r])"
      by (simp only: target_path_def p n if_True if_False h join_two)
    have ns: "\<not> startswith ?r ''/''"
      unfolding rid by (rule s)
    have "os_path_join ?base [?r] = (if ?base = [] \<or> last ?base = CHR ''/'' then ?base @ ?r
                                     else ?base @ ''/'' @ ?r)"
      by (simp only: join_one ns if_False)
    then have j: "os_path_join ?base [?r] = ?base @ ''/'' @ ?r"
      using bne bl by (simp only: simp_thms if_False)
    have t': "target_path root source_file import_path = os_path_normpath (os_path_join ?base [?r])"
      by (simp only: t join_lib)
    have 1: "target_path root source_file import_path = os_path_normpath (?base @ ''/'' @ ?r)"
      by (simp only: t' j)
    have 3: "target_path root source_file import_path
               = ?base @ (if ?fs = [] then [] else ''/'' @ str_join ''/'' ?fs)"
      if nr: "root = [] \<or> os_path_normpath root = root \<and> root \<noteq> ''.''"
        and pl: "\<forall>c \<in> set (str_split ?r (CHR ''/'')). c \<noteq> ''.'' \<and> c \<noteq> ''..''"
    proof -
      have bn: "os_path_normpath ?base = ?base"
      proof (cases "root = []")
        case True
        have "os_path_normpath ''lib'' = ''lib''"
          by (rule plain_name_normal) simp_all
        with True show ?thesis by simp
      next
        case False
        with nr have "os_path_normpath root = root" and "root \<noteq> ''.''" by blast+
        then have "os_path_normpath (os_path_join root [''lib'']) = os_path_join root [''lib'']"
          by (rule sibling_path_normal) simp_all
        then show ?thesis by (simp only: join_lib)
      qed
      have "3 \<le> length ?base" by simp
      then have bd: "?base \<noteq> ''.''" by auto
      have "os_path_normpath (os_path_join ?base [?r]) =
             (if ?fs = [] then ?base
              else if last ?base = CHR ''/'' then ?base @ str_join ''/'' ?fs
              else ?base @ ''/'' @ str_join ''/'' ?fs)"
        using bn bd ns pl by (rule plain_rel_normal)
      then have "target_path root source_file import_path =
             (if ?fs = [] then ?base else ?base @ ''/'' @ str_join ''/'' ?fs)"
        using bl by (simp only: t' if_False)
      then show ?thesis by (cases "?fs = []") simp_all
    qed
    from 1 3 show ?thesis by blast
  qed
  have res: "resolve_import w st source_file import_path
        = (if os_path_exists w (target_path (project_root st) source_file import_path) = Inr True
           then add_dependency source_file
                  (target_path (project_root st) source_file import_path) st
           else st)"
    by (rule resolve_import_cases)
  have sc: "file_dependencies (analyze_project (package_world ''utils.dart'') (init ''/proj''))
       = [(''/proj/main.dart'', {''/proj/lib/app/utils.dart''})]"
    by (simp add: utils_run)
  from general res sc show ?thesis by blast
qed

theorem package_import_resolution_witness:
  "target_path ''/proj'' ''/proj/main.dart'' ''package:app//utils.dart'' = ''/proj/lib/app/utils.dart''"
proof -
  have h: "startswith ''package:app//utils.dart'' ''package:''
      \<and> \<not> endswith ''package:app//utils.dart'' ''.py''
      \<and> \<not> sublist ''package:'' (drop 8 ''package:app//utils.dart'')
      \<and> \<not> startswith (drop 8 ''package:app//utils.dart'') ''/''"
    by (simp add: str_eval sublist_code)
  have n: "''/proj'' = [] \<or> os_path_normpath ''/proj'' = ''/proj'' \<and> ''/proj'' \<noteq> ''.''"
    by (simp add: str_eval path_eval)
  have r: "str_replace (drop 8 ''package:app//utils.dart'') ''/'' os_sep = ''app//utils.dart''"
    by (simp add: os_sep_def)
  have pl: "\<forall>c \<in> set (str_split (str_replace (drop 8 ''package:app//utils.dart'') ''/'' os_sep)
                        (CHR ''/'')). c \<noteq> ''.'' \<and> c \<noteq> ''..''"
    unfolding r by simp
  from package_import_resolution
         [of "''package:app//utils.dart''" "''/proj''" "''/proj/main.dart''"] h n pl
  have "target_path ''/proj'' ''/proj/main.dart'' ''package:app//utils.dart''
          = (if ''/proj'' = [] \<or> last ''/proj'' = CHR ''/'' then ''/proj'' @ ''lib''
             else ''/proj'' @ ''/lib'')
            @ (if filter (\<lambda>c. c \<noteq> [])
                    (str_split (str_replace (drop 8 ''package:app//utils.dart'') ''/'' os_sep)
                       (CHR ''/'')) = []
               then []
               else ''/'' @ str_join ''/''
                      (filter (\<lambda>c. c \<noteq> [])
                         (str_split (str_replace (drop 8 ''package:app//utils.dart'') ''/'' os_sep)
                            (CHR ''/''))))"
    by blast
  then show ?thesis unfolding r by simp
qed

text \<open>
  C6. For an import string that ends in \<^verbatim>\<open>.py\<close>, the candidate path is the import joined
  to the directory of the importing file and normalized; when it exists, the resolver
  records the edge from the importing file to it. When the import is a plain file name
  and the directory of the importing file is normalized (or empty), the candidate is the
  path of the sibling itself: the directory, the separator and the name.
\<close>

theorem sibling_suffix_resolution:
  assumes "endswith import_path ''.py''"
    and "os_path_exists w
           (os_path_normpath (os_path_join (os_path_dirname source_file) [import_path])) = Inr True"
  shows "target_path (project_root st) source_file import_path
           = os_path_normpath (os_path_join (os_path_dirname source_file) [import_path])
         \<and> resolve_import w st source_file import_path
           = add_dependency source_file
               (os_path_normpath (os_path_join (os_path_dirname source_file) [import_path])) st
         \<and> map_of (file_dependencies (resolve_import w st source_file import_path)) source_file
           = Some (insert (os_path_normpath (os_path_join (os_path_dirname source_file) [import_path]))
                     (deps_of st source_file))
         \<and> (CHR ''/'' \<notin> set import_path
              \<and> (os_path_dirname source_file = []
                   \<or> os_path_normpath (os_path_dirname source_file) = os_path_dirname source_file
                     \<and> os_path_dirname source_file \<noteq> ''.'') \<longrightarrow>
              os_path_normpath (os_path_join (os_path_dirname source_file) [import_path])
                = os_path_join (os_path_dirname source_file) [import_path])"
proof -
  have t: "target_path (project_root st) source_file import_path
           = os_path_normpath (os_path_join (os_path_dirname source_file) [import_path])"
    using assms(1) by (simp only: target_path_def if_True)
  have r: "resolve_import w st source_file import_path
           = add_dependency source_file
               (os_path_normpath (os_path_join (os_path_dirname source_file) [import_path])) st"
    using assms(2) by (simp only: resolve_import_cases t simp_thms if_True)
  have m: "map_of (file_dependencies (resolve_import w st source_file import_path)) source_file
           = Some (insert (os_path_normpath (os_path_join (os_path_dirname source_file) [import_path]))
                     (deps_of st source_file))"
    by (simp only: r add_dependency_map fun_upd_same)
  note n = suffix_py_name [OF assms(1)]
  have s: "os_path_normpath (os_path_join (os_path_dirname source_file) [import_path])
             = os_path_join (os_path_dirname source_file) [import_path]"
    if ns: "CHR ''/'' \<notin> set import_path"
      and d: "os_path_dirname source_file = []
              \<or> os_path_normpath (os_path_dirname source_file) = os_path_dirname source_file
                \<and> os_path_dirname source_file \<noteq> ''.''"
  proof (cases "os_path_dirname source_file = []")
    case True
    have ne: "\<not> startswith import_path os_sep"
      using ns n by (cases import_path) (auto simp: startswith_def os_sep_def)
    have j: "os_path_join [] [import_path] = import_path"
      using ne by simp
    have p: "os_path_normpath import_path = import_path"
      using ns n by (intro plain_name_normal) blast+
    show ?thesis
      by (simp only: True j p)
  next
    case False
    with d have "os_path_normpath (os_path_dirname source_file) = os_path_dirname source_file"
      and "os_path_dirname source_file \<noteq> ''.''" by blast+
    then show ?thesis
      using ns n by (intro sibling_path_normal) blast+
  qed
  from t r m s show ?thesis by blast
qed

theorem sibling_suffix_resolution_witness:
  "file_dependencies (resolve_import abc_world (init ''/proj'') ''/proj/a.py'' ''b.py'')
     = [(''/proj/a.py'', {''/proj/b.py''})]
   \<and> os_path_normpath (os_path_join (os_path_dirname ''/proj/a.py'') [''b.py''])
     = os_path_join (os_path_dirname ''/proj/a.py'') [''b.py'']"
proof -
  have 1: "endswith ''b.py'' ''.py''" by (simp add: str_eval)
  have 2: "os_path_exists abc_world
             (os_path_normpath (os_path_join (os_path_dirname ''/proj/a.py'') [''b.py''])) = Inr True"
    unfolding sibling_target by (simp add: abc_world_def)
  have 3: "CHR ''/'' \<notin> set ''b.py''
           \<and> (os_path_dirname ''/proj/a.py'' = []
                \<or> os_path_normpath (os_path_dirname ''/proj/a.py'') = os_path_dirname ''/proj/a.py''
                  \<and> os_path_dirname ''/proj/a.py'' \<noteq> ''.'')"
    by (simp add: str_eval path_eval)
  note th = sibling_suffix_resolution [OF 1 2, of "init ''/proj''"]
  from th have "resolve_import abc_world (init ''/proj'') ''/proj/a.py'' ''b.py''
          = add_dependency ''/proj/a.py'' ''/proj/b.py'' (init ''/proj'')"
    unfolding sibling_target by simp
  then have "file_dependencies (resolve_import abc_world (init ''/proj'') ''/proj/a.py'' ''b.py'')
     = [(''/proj/a.py'', {''/proj/b.py''})]"
    by (simp add: add_dependency_def)
  moreover from th 3
  have "os_path_normpath (os_path_join (os_path_dirname ''/proj/a.py'') [''b.py''])
     = os_path_join (os_path_dirname ''/proj/a.py'') [''b.py'']"
    by blast
  ultimately show ?thesis by blast
qed

text \<open>
  C7. For every source file and import string the resolver returns a state: either the
  state it was given (no edge), or that state with the edge to the existing candidate
  added. It has no error result; when its body raises, the state is returned unchanged.
\<close>

theorem resolve_import_never_raises:
  "(resolve_import w st source_file import_path = st
      \<or> os_path_exists w (target_path (project_root st) source_file import_path) = Inr True
        \<and> resolve_import w st source_file import_path =
            add_dependency source_file (target_path (project_root st) source_file import_path) st)
   \<and> (resolve_import_try w st source_file import_path = Inl e \<longrightarrow>
        os_path_exists w (target_path (project_root st) source_file import_path) = Inl e
        \<and> resolve_import w st source_file import_path = st)"
  by (auto simp: resolve_import_def resolve_import_try_def Let_def split: sum.splits)

theorem resolve_import_never_raises_witness:
  "resolve_import_try faulty_world (init ''/proj'') ''/proj/main.dart'' [CHR ''x'', CHR 0x00]
     = Inl ValueError
   \<and> resolve_import faulty_world (init ''/proj'') ''/proj/main.dart'' [CHR ''x'', CHR 0x00]
     = init ''/proj''"
proof -
  have 1: "resolve_import_try faulty_world (init ''/proj'') ''/proj/main.dart'' [CHR ''x'', CHR 0x00]
     = Inl ValueError"
    by (simp add: resolve_import_try_def faulty_target faulty_world_def)
  from resolve_import_never_raises [of faulty_world "init ''/proj''" "''/proj/main.dart''"
      "[CHR ''x'', CHR 0x00]" ValueError] 1
  show ?thesis by simp
qed

text \<open>
  C8. A collected \<^verbatim>\<open>.py\<close> file that can be read and whose content the parser rejects is in
  the used set after the scan and after the analysis, is not a key of the dependency
  graph (no outgoing edge), and is not in the unused set.
\<close>

theorem parse_failure_still_used:
  assumes "f \<in> set (all_files (collect_all_files w (init root)))"
    and "endswith f ''.py''"
    and "open_read w f = Inr content"
    and "ast_parse_walk w content = Inl e"
  shows "f \<in> used_files (analyze_imports w (collect_all_files w (init root)))
         \<and> f \<in> used_files (analyze_project w (init root))
         \<and> f \<notin> fst ` set (file_dependencies (analyze_project w (init root)))
         \<and> f \<notin> unused_files (analyze_project w (init root))"
proof -
  have i: "file_imports w f = Some []"
    using assms by (simp add: file_imports_def)
  then have t: "file_targets w root f = {}"
    by (simp add: file_targets_def)
  have a: "f \<in> set (all_files (analyze_project w (init root)))"
    using assms(1) by (simp add: analysis_all_files)
  have 1: "f \<in> used_files (analyze_imports w (collect_all_files w (init root)))"
    using a i by (simp add: analysis_scanned)
  then have 2: "f \<in> used_files (analyze_project w (init root))"
    by (simp add: analysis_used)
  have 3: "f \<notin> fst ` set (file_dependencies (analyze_project w (init root)))"
    using t by (auto simp: analysis_entry)
  from 1 2 3 show ?thesis by (simp add: analysis_unused)
qed

theorem parse_failure_still_used_witness:
  "''/proj/bad.py'' \<in> used_files (analyze_project faulty_world (init ''/proj''))
   \<and> ''/proj/bad.py'' \<notin> fst ` set (file_dependencies (analyze_project faulty_world (init ''/proj'')))
   \<and> ''/proj/bad.py'' \<notin> unused_files (analyze_project faulty_world (init ''/proj''))"
proof -
  have 1: "''/proj/bad.py'' \<in> set (all_files (collect_all_files faulty_world (init ''/proj'')))"
    by (simp add: faulty_collect)
  have 2: "endswith ''/proj/bad.py'' ''.py''" by (simp add: str_eval)
  have 3: "open_read faulty_world ''/proj/bad.py'' = Inr ''def (''" by (simp add: faulty_world_def)
  have 4: "ast_parse_walk faulty_world ''def ('' = Inl SyntaxError" by (simp add: faulty_world_def)
  from parse_failure_still_used [OF 1 2 3 4] show ?thesis by simp
qed

text \<open>
  C9. A collected file that cannot be opened or decoded is not added to the used set by
  the scan and stays among the collected files; after the analysis it is in the unused
  set exactly when it is the target of no edge.
\<close>

theorem unreadable_file_unused:
  assumes "f \<in> set (all_files (collect_all_files w (init root)))"
    and "open_read w f = Inl e"
  shows "f \<notin> used_files (analyze_imports w (collect_all_files w (init root)))
         \<and> f \<in> set (all_files (analyze_project w (init root)))
         \<and> (f \<in> unused_files (analyze_project w (init root)) \<longleftrightarrow>
              (\<forall>(k, deps) \<in> set (file_dependencies (analyze_project w (init root))). f \<notin> deps))"
proof -
  have i: "file_imports w f = None"
    using assms by (simp add: file_imports_def)
  have a: "f \<in> set (all_files (analyze_project w (init root)))"
    using assms(1) by (simp add: analysis_all_files)
  have 1: "f \<notin> used_files (analyze_imports w (collect_all_files w (init root)))"
    using i by (simp add: analysis_scanned)
  have "f \<in> unused_files (analyze_project w (init root)) \<longleftrightarrow>
          f \<notin> \<Union> (snd ` set (file_dependencies (analyze_project w (init root))))"
    using a 1 by (simp add: analysis_unused analysis_used [of w "init root"])
  also have "\<dots> \<longleftrightarrow> (\<forall>(k, deps) \<in> set (file_dependencies (analyze_project w (init root))). f \<notin> deps)"
    by force
  finally show ?thesis using a 1 by simp
qed

theorem unreadable_file_unused_witness:
  "''/proj/latin1.py'' \<notin> used_files (analyze_imports faulty_world (collect_all_files faulty_world (init ''/proj'')))
   \<and> ''/proj/latin1.py'' \<in> unused_files (analyze_project faulty_world (init ''/proj''))"
proof -
  have 1: "''/proj/latin1.py'' \<in> set (all_files (collect_all_files faulty_world (init ''/proj'')))"
    by (simp add: faulty_collect)
  have 2: "open_read faulty_world ''/proj/latin1.py'' = Inl UnicodeDecodeError"
    by (simp add: faulty_world_def)
  from unreadable_file_unused [OF 1 2] show ?thesis by (simp add: faulty_run)
qed

text \<open>
  C10. After the analysis, every key of the dependency graph is a collected file and the
  set of targets of every key is not empty.
\<close>

theorem graph_keys_collected:
  "\<forall>(k, deps) \<in> set (file_dependencies (analyze_project w (init root))).
     k \<in> set (all_files (analyze_project w (init root))) \<and> deps \<noteq> {}"
  by (auto simp: analysis_entry)

theorem graph_keys_collected_witness:
  "''/proj/main.dart'' \<in> set (all_files (analyze_project (package_world ''utils.dart'') (init ''/proj'')))
   \<and> {''/proj/lib/app/utils.dart''} \<noteq> ({} :: string set)"
proof -
  have "(''/proj/main.dart'', {''/proj/lib/app/utils.dart''})
          \<in> set (file_dependencies (analyze_project (package_world ''utils.dart'') (init ''/proj'')))"
    by (simp add: utils_run)
  with graph_keys_collected [of "package_world ''utils.dart''" "''/proj''"]
  show ?thesis by blast
qed

end
